theory Spec2Isabelle
  imports Complex_Main "HOL-Library.Multiset"
begin

chapter \<open>NetKet: statistics engine, exchange samplers and variational drivers\<close>

text \<open>
  A shallow embedding of the parts of the NetKet sources that the statistics engine
  (\<^verbatim>\<open>Sources/Stats/mc_stats.cc\<close>), the variational Monte Carlo driver
  (\<^verbatim>\<open>variational_montecarlo.hpp\<close>), the exact variational driver
  (\<^verbatim>\<open>variational_exact.hpp\<close>), the global exchange sampler
  (\<^verbatim>\<open>Sampler/metropolis_global.hpp\<close>) and the exchange kernel
  (\<^verbatim>\<open>exchange_kernel.hpp\<close>) consist of.  The first part holds the model, the
  second part the properties proved about it.

  Conventions.  C++ members lose their trailing underscore (\<^verbatim>\<open>nsamples_\<close> is
  \<open>nsamples\<close>).  An exception is a value \<open>Inl e\<close> of a sum type.  Member state is
  passed explicitly.  Calls into code outside these sources (the machine, the random
  engine, the MPI communicator, Eigen's solvers) are parameters of the model.
\<close>

section \<open>Model\<close>

subsection \<open>Exceptions\<close>

text \<open>\<^verbatim>\<open>InvalidInputError\<close> of \<^verbatim>\<open>Utils/exceptions.hpp\<close> and
  \<^verbatim>\<open>std::runtime_error\<close>; a failed \<^verbatim>\<open>assert\<close>; an access outside a vector, which C++
  leaves undefined and the model reports.\<close>

datatype error = InvalidInputError | RuntimeError | AssertionFailed | OutOfBounds

subsection \<open>The variational Monte Carlo driver\<close>

text \<open>Conversion of a \<^verbatim>\<open>double\<close> to \<^verbatim>\<open>int\<close>: truncation towards zero.\<close>

definition cpp_trunc :: "real \<Rightarrow> int" where
  "cpp_trunc x = (if 0 \<le> x then \<lfloor>x\<rfloor> else \<lceil>x\<rceil>)"

text \<open>The stochastic reconfiguration object held in \<^verbatim>\<open>sr_\<close>: the arguments of
  \<^verbatim>\<open>sr_.emplace\<close>.\<close>

record 'solver SR =
  solver :: 'solver
  diag_shift :: real
  use_iterative :: bool
  is_holomorphic :: bool

text \<open>What a driver does to its collaborators, in order.  The collaborators
  (\<^verbatim>\<open>ComputeSamples\<close>, \<^verbatim>\<open>LocalValues\<close>, \<^verbatim>\<open>Gradient\<close>, the optimizer) are not part
  of these sources; the driver's control flow decides which of them run, and the log
  records that.\<close>

datatype event =
    EvComputeSamples int int
  | EvLocalValues
  | EvStatistics
  | EvGradient
  | EvGradientOfVariance
  | EvComputeUpdate
  | EvOptUpdate
  | EvSendToAll
  | EvSetParameters
  | EvBarrier

record 'solver VariationalMonteCarlo =
  totalnodes :: int
  sr :: "'solver SR option"
  nsamples :: int
  nsamples_node :: int
  ninitsamples :: int
  ndiscard :: int
  npar :: int
  target :: string
  events :: "event list"

text \<open>The driver's surroundings: the machine's \<^verbatim>\<open>Npar\<close> and \<^verbatim>\<open>IsHolomorphic\<close>, the
  size of \<^verbatim>\<open>MPI_COMM_WORLD\<close> and \<^verbatim>\<open>SR::SolverFromString\<close>.\<close>

record 'solver vmc_env =
  Npar :: int
  IsHolomorphic :: bool
  comm_size :: int
  SolverFromString :: "string \<Rightarrow> 'solver option"

text \<open>
  \<^verbatim>\<open>VariationalMonteCarlo::Init\<close>.  The quota of one process is
  \<^verbatim>\<open>int(std::ceil(double(nsamples_) / double(totalnodes_)))\<close>; both operands are 32-bit
  integers, which \<^verbatim>\<open>double\<close> holds exactly, and the model divides in the reals.
  \<^verbatim>\<open>0.1 * nsamples_node_\<close> is a tenth, truncated by the assignment to an \<^verbatim>\<open>int\<close>.

  The last statement of the source,
  \<^verbatim>\<open>if (target_ != "energy" && target_ != "variance") { InvalidInputError("..."); }\<close>,
  builds an exception object and drops it: there is no \<^verbatim>\<open>throw\<close>.  The model binds
  the object to \<open>temporary\<close> and goes on.
\<close>

definition Init ::
  "'solver vmc_env \<Rightarrow> 'solver VariationalMonteCarlo \<Rightarrow> int \<Rightarrow> int \<Rightarrow> int \<Rightarrow> string \<Rightarrow> real \<Rightarrow>
   bool \<Rightarrow> bool option \<Rightarrow> string \<Rightarrow> error + 'solver VariationalMonteCarlo" where
  "Init env st nsamples' discarded_samples discarded_samples_on_init method diag_shift'
        use_iterative' use_cholesky sr_lsq_solver =
    (let st = st\<lparr>npar := Npar env\<rparr>;
         st = st\<lparr>totalnodes := comm_size env\<rparr>;
         st = st\<lparr>nsamples := nsamples'\<rparr>;
         st = st\<lparr>nsamples_node :=
                cpp_trunc (of_int \<lceil>real_of_int (nsamples st) / real_of_int (totalnodes st)\<rceil>)\<rparr>;
         st = st\<lparr>ninitsamples := discarded_samples_on_init\<rparr>;
         st = (if discarded_samples = - 1
               then st\<lparr>ndiscard := cpp_trunc (real_of_int (nsamples_node st) / 10)\<rparr>
               else st\<lparr>ndiscard := discarded_samples\<rparr>)
     in if (case use_cholesky of None \<Rightarrow> False | Some c \<Rightarrow> c \<and> sr_lsq_solver \<noteq> ''LLT'')
        then Inl InvalidInputError
        else
          (case (if method = ''Gd'' then Inr st
                 else (case SolverFromString env sr_lsq_solver of
                         None \<Rightarrow> Inl InvalidInputError
                       | Some s \<Rightarrow>
                           Inr (st\<lparr>sr := Some \<lparr>solver = s, diag_shift = diag_shift',
                                               use_iterative = use_iterative',
                                               is_holomorphic = IsHolomorphic env\<rparr>\<rparr>))) of
             Inl e \<Rightarrow> Inl e
           | Inr st \<Rightarrow>
               (let temporary =
                      (if target st \<noteq> ''energy'' \<and> target st \<noteq> ''variance''
                       then [InvalidInputError] else [])
                in Inr (st\<lparr>events := events st @ [EvBarrier]\<rparr>))))"

text \<open>The constructor: \<^verbatim>\<open>sr_{nonstd::nullopt}\<close>, \<^verbatim>\<open>target_(target)\<close>, then \<^verbatim>\<open>Init\<close>.  The
  other members are not initialised before \<^verbatim>\<open>Init\<close> assigns them.\<close>

definition VariationalMonteCarlo_new ::
  "'solver vmc_env \<Rightarrow> int \<Rightarrow> int \<Rightarrow> int \<Rightarrow> string \<Rightarrow> string \<Rightarrow> real \<Rightarrow>
   bool \<Rightarrow> bool option \<Rightarrow> string \<Rightarrow> error + 'solver VariationalMonteCarlo" where
  "VariationalMonteCarlo_new env nsamples' discarded_samples discarded_samples_on_init target'
        method diag_shift' use_iterative' use_cholesky sr_lsq_solver =
     Init env \<lparr>totalnodes = 0, sr = None, nsamples = 0, nsamples_node = 0, ninitsamples = 0,
               ndiscard = 0, npar = 0, target = target', events = []\<rparr>
          nsamples' discarded_samples discarded_samples_on_init method diag_shift'
          use_iterative' use_cholesky sr_lsq_solver"

text \<open>\<^verbatim>\<open>VariationalMonteCarlo::UpdateParameters\<close>.\<close>

definition UpdateParameters :: "'solver VariationalMonteCarlo \<Rightarrow> 'solver VariationalMonteCarlo" where
  "UpdateParameters st =
     st\<lparr>events := events st
          @ (if sr st \<noteq> None then [EvComputeUpdate] else [])
          @ [EvOptUpdate, EvSendToAll, EvSetParameters, EvBarrier]\<rparr>"

text \<open>One iteration of the loop of \<^verbatim>\<open>VariationalMonteCarlo::Advance\<close>: sampling, local
  values and statistics come first, the test of \<^verbatim>\<open>target_\<close> after them.\<close>

definition Advance_iteration ::
  "'solver VariationalMonteCarlo \<Rightarrow> (error \<times> 'solver VariationalMonteCarlo) + 'solver VariationalMonteCarlo" where
  "Advance_iteration st =
     (let st = st\<lparr>events := events st @ [EvComputeSamples (nsamples_node st) (ndiscard st)]\<rparr>;
          st = st\<lparr>events := events st @ [EvLocalValues]\<rparr>;
          st = st\<lparr>events := events st @ [EvStatistics]\<rparr>
      in if target st = ''energy''
         then Inr (UpdateParameters (st\<lparr>events := events st @ [EvGradient]\<rparr>))
         else if target st = ''variance''
         then Inr (UpdateParameters (st\<lparr>events := events st @ [EvGradientOfVariance]\<rparr>))
         else Inl (RuntimeError, st))"

text \<open>\<^verbatim>\<open>Advance(steps)\<close>: the loop \<^verbatim>\<open>for (Index i = 0; i < steps; ++i)\<close>.  An exception
  leaves the loop; the state reached is kept beside it.\<close>

fun Advance ::
  "nat \<Rightarrow> 'solver VariationalMonteCarlo \<Rightarrow> (error \<times> 'solver VariationalMonteCarlo) + 'solver VariationalMonteCarlo" where
  "Advance 0 st = Inr st"
| "Advance (Suc steps) st =
     (case Advance_iteration st of
        Inl e \<Rightarrow> Inl e
      | Inr st' \<Rightarrow> Advance steps st')"

subsection \<open>Double precision numbers\<close>

text \<open>
  A \<^verbatim>\<open>double\<close> is a finite value, an infinity or not-a-number.  An arithmetic
  operation on finite operands returns the exact real result passed through a
  rounding function \<open>rnd\<close>, which stands for the rounding of IEEE 754, overflow to an
  infinity included; on an operand that is not finite the result is the one IEEE 754
  fixes.  Two rounding functions are used below: \<open>Fin\<close> itself is exact arithmetic,
  and \<open>overflowing\<close> is exact below the overflow threshold of binary64 and returns an
  infinity from there on.  The sign of zero is left out: a zero divisor counts as
  \<open>+0\<close>.  The conversion of a count of samples or chains to \<^verbatim>\<open>double\<close> is exact, as
  it is for every count below \<open>2\<^sup>5\<^sup>3\<close>.
\<close>

datatype double = Fin real | PInf | MInf | NaN

type_synonym rounding = "real \<Rightarrow> double"

definition overflow_threshold :: real where
  "overflow_threshold = 2 ^ 1024 - 2 ^ 970"

definition overflowing :: rounding where
  "overflowing r =
     (if overflow_threshold \<le> r then PInf
      else if r \<le> - overflow_threshold then MInf
      else Fin r)"

fun disnan :: "double \<Rightarrow> bool" where
  "disnan NaN = True"
| "disnan _ = False"

fun dneg :: "double \<Rightarrow> double" where
  "dneg (Fin a) = Fin (- a)"
| "dneg PInf = MInf"
| "dneg MInf = PInf"
| "dneg NaN = NaN"

fun dadd :: "rounding \<Rightarrow> double \<Rightarrow> double \<Rightarrow> double" where
  "dadd rnd (Fin a) (Fin b) = rnd (a + b)"
| "dadd rnd (Fin a) PInf = PInf"
| "dadd rnd (Fin a) MInf = MInf"
| "dadd rnd PInf (Fin b) = PInf"
| "dadd rnd MInf (Fin b) = MInf"
| "dadd rnd PInf PInf = PInf"
| "dadd rnd MInf MInf = MInf"
| "dadd rnd PInf MInf = NaN"
| "dadd rnd MInf PInf = NaN"
| "dadd rnd NaN _ = NaN"
| "dadd rnd _ NaN = NaN"

definition dsub :: "rounding \<Rightarrow> double \<Rightarrow> double \<Rightarrow> double" where
  "dsub rnd a b = dadd rnd a (dneg b)"

text \<open>An infinity times or divided by a finite value takes the sign of the product;
  infinity times zero is not a number.\<close>

definition dscale_inf :: "double \<Rightarrow> real \<Rightarrow> double" where
  "dscale_inf i a = (if a = 0 then NaN else if 0 < a then i else dneg i)"

fun dmul :: "rounding \<Rightarrow> double \<Rightarrow> double \<Rightarrow> double" where
  "dmul rnd (Fin a) (Fin b) = rnd (a * b)"
| "dmul rnd (Fin a) PInf = dscale_inf PInf a"
| "dmul rnd (Fin a) MInf = dscale_inf MInf a"
| "dmul rnd PInf (Fin b) = dscale_inf PInf b"
| "dmul rnd MInf (Fin b) = dscale_inf MInf b"
| "dmul rnd PInf PInf = PInf"
| "dmul rnd MInf MInf = PInf"
| "dmul rnd PInf MInf = MInf"
| "dmul rnd MInf PInf = MInf"
| "dmul rnd NaN _ = NaN"
| "dmul rnd _ NaN = NaN"

fun ddiv :: "rounding \<Rightarrow> double \<Rightarrow> double \<Rightarrow> double" where
  "ddiv rnd (Fin a) (Fin b) =
     (if b \<noteq> 0 then rnd (a / b)
      else if a = 0 then NaN else if 0 < a then PInf else MInf)"
| "ddiv rnd (Fin a) PInf = Fin 0"
| "ddiv rnd (Fin a) MInf = Fin 0"
| "ddiv rnd PInf (Fin b) = (if 0 \<le> b then PInf else MInf)"
| "ddiv rnd MInf (Fin b) = (if 0 \<le> b then MInf else PInf)"
| "ddiv rnd PInf PInf = NaN"
| "ddiv rnd MInf MInf = NaN"
| "ddiv rnd PInf MInf = NaN"
| "ddiv rnd MInf PInf = NaN"
| "ddiv rnd NaN _ = NaN"
| "ddiv rnd _ NaN = NaN"

text \<open>\<^verbatim>\<open>std::sqrt\<close>.\<close>

fun dsqrt :: "rounding \<Rightarrow> double \<Rightarrow> double" where
  "dsqrt rnd (Fin a) = (if 0 \<le> a then rnd (sqrt a) else NaN)"
| "dsqrt rnd PInf = PInf"
| "dsqrt rnd MInf = NaN"
| "dsqrt rnd NaN = NaN"

text \<open>\<^verbatim>\<open>std::round\<close>: to the nearest integer, halfway cases away from zero.  The
  result is a \<^verbatim>\<open>double\<close> as it is.\<close>

definition cpp_round :: "real \<Rightarrow> int" where
  "cpp_round x = (if 0 \<le> x then \<lfloor>x + 1 / 2\<rfloor> else - \<lfloor>- x + 1 / 2\<rfloor>)"

fun dround :: "double \<Rightarrow> double" where
  "dround (Fin a) = Fin (of_int (cpp_round a))"
| "dround PInf = PInf"
| "dround MInf = MInf"
| "dround NaN = NaN"

text \<open>The comparison \<^verbatim>\<open><\<close>: false as soon as one side is not a number.\<close>

fun dless :: "double \<Rightarrow> double \<Rightarrow> bool" where
  "dless (Fin a) (Fin b) = (a < b)"
| "dless (Fin a) PInf = True"
| "dless MInf (Fin b) = True"
| "dless MInf PInf = True"
| "dless _ _ = False"

text \<open>Sum of the coefficients of a vector (\<^verbatim>\<open>.sum()\<close>); the sum of no coefficient is
  zero.  Eigen and MPI leave the order of the additions open; here they are done from
  the right.\<close>

primrec dsum :: "rounding \<Rightarrow> double list \<Rightarrow> double" where
  "dsum rnd [] = Fin 0"
| "dsum rnd (x # xs) = dadd rnd x (dsum rnd xs)"

text \<open>\<^verbatim>\<open>std::complex<double>\<close>: real and imaginary part.\<close>

type_synonym dcomplex = "double \<times> double"

definition cadd :: "rounding \<Rightarrow> dcomplex \<Rightarrow> dcomplex \<Rightarrow> dcomplex" where
  "cadd rnd z w = (dadd rnd (fst z) (fst w), dadd rnd (snd z) (snd w))"

definition csub :: "rounding \<Rightarrow> dcomplex \<Rightarrow> dcomplex \<Rightarrow> dcomplex" where
  "csub rnd z w = (dsub rnd (fst z) (fst w), dsub rnd (snd z) (snd w))"

text \<open>Division of a complex number by a \<^verbatim>\<open>double\<close> divides both parts.\<close>

definition cdiv :: "rounding \<Rightarrow> dcomplex \<Rightarrow> double \<Rightarrow> dcomplex" where
  "cdiv rnd z d = (ddiv rnd (fst z) d, ddiv rnd (snd z) d)"

text \<open>\<^verbatim>\<open>abs2\<close>: the squared modulus.\<close>

definition cabs2 :: "rounding \<Rightarrow> dcomplex \<Rightarrow> double" where
  "cabs2 rnd z = dadd rnd (dmul rnd (fst z) (fst z)) (dmul rnd (snd z) (snd z))"

primrec csum :: "rounding \<Rightarrow> dcomplex list \<Rightarrow> dcomplex" where
  "csum rnd [] = (Fin 0, Fin 0)"
| "csum rnd (z # zs) = cadd rnd z (csum rnd zs)"

subsection \<open>The statistics engine\<close>

text \<open>
  \<^verbatim>\<open>detail::MeanAndVarianceAccumulator\<close>.  The two spans are the buffers \<open>mu\<close> and
  \<open>M2\<close>; \<open>n\<close> counts the calls.  The constructor checks that both spans have one
  size (\<^verbatim>\<open>CheckShape\<close>) and fills them with zeros.
\<close>

record MeanAndVarianceAccumulator =
  acc_mu :: "double list"
  acc_M2 :: "double list"
  acc_n :: int

definition MeanAndVarianceAccumulator_new :: "nat \<Rightarrow> nat \<Rightarrow> error + MeanAndVarianceAccumulator" where
  "MeanAndVarianceAccumulator_new mu_size var_size =
     (if mu_size \<noteq> var_size then Inl InvalidInputError
      else Inr \<lparr>acc_mu = replicate mu_size (Fin 0), acc_M2 = replicate var_size (Fin 0), acc_n = 0\<rparr>)"

text \<open>The lambda \<^verbatim>\<open>kernel\<close> of \<^verbatim>\<open>operator()\<close>: one step of Welford's recurrence on one
  component; \<open>n'\<close> is the counter after \<^verbatim>\<open>++n_\<close>.\<close>

definition kernel :: "rounding \<Rightarrow> int \<Rightarrow> double \<times> double \<Rightarrow> double \<Rightarrow> double \<times> double" where
  "kernel rnd n' acc x =
     (let delta = dsub rnd x (fst acc);
          mu' = dadd rnd (fst acc) (ddiv rnd delta (Fin (of_int n')));
          M2' = dadd rnd (snd acc) (dmul rnd delta (dsub rnd x mu'))
      in (mu', M2'))"

text \<open>\<^verbatim>\<open>operator()(xs)\<close>.\<close>

definition accumulate :: "rounding \<Rightarrow> MeanAndVarianceAccumulator \<Rightarrow> double list \<Rightarrow> MeanAndVarianceAccumulator" where
  "accumulate rnd acc xs =
     (let n' = acc_n acc + 1;
          steps = map (\<lambda>i. kernel rnd n' (acc_mu acc ! i, acc_M2 acc ! i) (xs ! i)) [0..<length (acc_mu acc)]
      in \<lparr>acc_mu = map fst steps, acc_M2 = map snd steps, acc_n = n'\<rparr>)"

text \<open>The destructor, which leaves the results in the two buffers.\<close>

definition finish :: "rounding \<Rightarrow> MeanAndVarianceAccumulator \<Rightarrow> double list \<times> double list" where
  "finish rnd acc =
     (if acc_n acc = 0 then (map (\<lambda>_. NaN) (acc_mu acc), map (\<lambda>_. NaN) (acc_M2 acc))
      else if acc_n acc = 1 then (acc_mu acc, map (\<lambda>_. NaN) (acc_M2 acc))
      else (let scale = ddiv rnd (Fin 1) (Fin (of_int (acc_n acc)))
            in (acc_mu acc, map (\<lambda>x. dmul rnd x scale) (acc_M2 acc))))"

text \<open>\<^verbatim>\<open>reinterpret_cast<const double*>\<close> of a complex vector: real and imaginary parts
  alternate.  \<open>as_complex\<close> reads such a buffer back.\<close>

definition as_doubles :: "dcomplex list \<Rightarrow> double list" where
  "as_doubles zs = concat (map (\<lambda>z. [fst z, snd z]) zs)"

definition as_complex :: "double list \<Rightarrow> dcomplex list" where
  "as_complex buf = map (\<lambda>i. (buf ! (2 * i), buf ! (2 * i + 1))) [0..<length buf div 2]"

text \<open>
  \<^verbatim>\<open>StatisticsLocal\<close>: in-chain means and variances.  Sample \<open>i\<close> of all chains is the
  block of \<open>2 * number_chains\<close> doubles at offset \<open>i * 2 * number_chains\<close>.  After the
  accumulator is destroyed the variances of real and imaginary part are added in
  place and the buffer is cut to \<open>number_chains\<close> entries.
\<close>

definition StatisticsLocal :: "rounding \<Rightarrow> dcomplex list \<Rightarrow> int \<Rightarrow> error + (dcomplex list \<times> double list)" where
  "StatisticsLocal rnd values number_chains =
     (if \<not> 0 < number_chains then Inl InvalidInputError
      else if int (length values) mod number_chains \<noteq> 0 then Inl InvalidInputError
      else
        (let k = nat number_chains in
         case MeanAndVarianceAccumulator_new (2 * k) (2 * k) of
           Inl e \<Rightarrow> Inl e
         | Inr acc \<Rightarrow>
             (let p = as_doubles values;
                  n = nat (int (length values) div number_chains);
                  acc = fold (\<lambda>i a. accumulate rnd a (take (2 * k) (drop (i * (2 * k)) p))) [0..<n] acc;
                  (mean, var) = finish rnd acc;
                  var = fold (\<lambda>i v. v[i := dadd rnd (v ! (2 * i)) (v ! (2 * i + 1))]) [0..<k] var;
                  var = take k var
              in Inr (as_complex mean, var))))"

record Stats =
  mean :: dcomplex
  error_of_mean :: double
  variance :: double
  correlation :: double
  R :: double

text \<open>\<^verbatim>\<open>MPI_Allreduce\<close> with \<^verbatim>\<open>MPI_SUM\<close>: every rank receives the sum of the
  contributions of all ranks, its own and those of its peers.\<close>

definition MPI_Allreduce_SUM :: "rounding \<Rightarrow> double \<Rightarrow> double list \<Rightarrow> double" where
  "MPI_Allreduce_SUM rnd own others = dsum rnd (own # others)"

definition MPI_Allreduce_SUM_complex :: "rounding \<Rightarrow> dcomplex \<Rightarrow> dcomplex list \<Rightarrow> dcomplex" where
  "MPI_Allreduce_SUM_complex rnd own others = csum rnd (own # others)"

text \<open>
  \<^verbatim>\<open>Statistics\<close>, as executed by one rank.  \<open>peers\<close> holds, for every other rank of
  \<^verbatim>\<open>MPI_COMM_WORLD\<close>, the in-chain means and variances that rank computed (its
  \<^verbatim>\<open>stats_local\<close>); each rank contributes to the two reductions what the lambdas
  \<^verbatim>\<open>mean\<close> and \<^verbatim>\<open>var\<close> compute from its \<^verbatim>\<open>stats_local\<close>.  The size of the communicator
  is the number of peers plus one.
\<close>

definition Statistics ::
  "rounding \<Rightarrow> (dcomplex list \<times> double list) list \<Rightarrow> dcomplex list \<Rightarrow> int \<Rightarrow> error + Stats" where
  "Statistics rnd peers values local_number_chains =
     (if \<not> local_number_chains \<le> int (length values) then Inl InvalidInputError
      else
        case StatisticsLocal rnd values local_number_chains of
          Inl e \<Rightarrow> Inl e
        | Inr stats_local \<Rightarrow>
            (let n = int (length values) div local_number_chains;
                 m = (1 + int (length peers)) * local_number_chains;
                 mean =
                   (let local_mean = csum rnd (fst stats_local);
                        global_mean =
                          MPI_Allreduce_SUM_complex rnd local_mean (map (\<lambda>p. csum rnd (fst p)) peers)
                    in cdiv rnd global_mean (Fin (of_int m)));
                 var =
                   (let local_var = (\<lambda>s. (dsum rnd (map (\<lambda>z. cabs2 rnd (csub rnd z mean)) (fst s)), dsum rnd (snd s)));
                        global_var =
                          (MPI_Allreduce_SUM rnd (fst (local_var stats_local)) (map (\<lambda>p. fst (local_var p)) peers),
                           MPI_Allreduce_SUM rnd (snd (local_var stats_local)) (map (\<lambda>p. snd (local_var p)) peers))
                    in if m = 1 then (NaN, NaN)
                       else (ddiv rnd (fst global_var) (Fin (of_int m)),
                             ddiv rnd (snd global_var) (Fin (of_int m))))
             in if \<not> disnan (fst var) \<and> \<not> disnan (snd var)
                then
                  (let t = ddiv rnd (fst var) (snd var);
                       correlation = dmul rnd (Fin (1 / 2)) (dsub rnd (dmul rnd t (Fin (of_int n))) (Fin 1));
                       correlation = (if dless correlation (Fin 0) then Fin 0 else correlation);
                       R = dsqrt rnd (dadd rnd (ddiv rnd (Fin (of_int (n - 1))) (Fin (of_int n)))
                                       (ddiv rnd (fst var) (snd var)))
                   in Inr \<lparr>mean = mean,
                           error_of_mean = dsqrt rnd (ddiv rnd (fst var) (Fin (of_int m))),
                           variance = snd var,
                           correlation = dround correlation,
                           R = R\<rparr>)
                else Inr \<lparr>mean = mean, error_of_mean = NaN, variance = NaN,
                          correlation = NaN, R = NaN\<rparr>))"

text \<open>
  The quantities the specification names, for comparison with what the code
  computes.  The chains of a process are interleaved: chain \<open>c\<close> of \<open>k\<close> holds the
  samples at positions \<open>c\<close>, \<open>k + c\<close>, \<open>2 k + c\<close>, ...  The variance of a chain is the
  two-pass population variance \<open>mean (x\<^sup>2) - (mean x)\<^sup>2\<close> of its real parts plus that of
  its imaginary parts.  \<open>spec_B\<close> is the mean squared deviation of the chain means
  from their mean, \<open>spec_W\<close> the mean of the chain variances.
\<close>

definition arith_mean :: "real list \<Rightarrow> real" where
  "arith_mean xs = sum_list xs / real (length xs)"

definition two_pass_variance :: "real list \<Rightarrow> real" where
  "two_pass_variance xs = arith_mean (map (\<lambda>x. x\<^sup>2) xs) - (arith_mean xs)\<^sup>2"

definition chain :: "nat \<Rightarrow> nat \<Rightarrow> complex list \<Rightarrow> complex list" where
  "chain k c vs = map (\<lambda>i. vs ! (i * k + c)) [0..<length vs div k]"


definition chain_mean :: "complex list \<Rightarrow> complex" where
  "chain_mean zs = Complex (arith_mean (map Re zs)) (arith_mean (map Im zs))"


definition global_mean :: "complex list list \<Rightarrow> complex" where
  "global_mean chs = sum_list (map chain_mean chs) / of_nat (length chs)"



text \<open>A finite complex sample as a \<open>dcomplex\<close>.\<close>

definition cfin :: "complex \<Rightarrow> dcomplex" where
  "cfin z = (Fin (Re z), Fin (Im z))"



subsection \<open>The exchange samplers\<close>

text \<open>
  Sites are natural numbers and a configuration is the list of its local values,
  which are finite.  A random engine is a value of an abstract type \<open>'g\<close>; drawing
  from a distribution returns the value drawn and the engine's next state.  The
  sampler's surroundings are
  \<^item> \<open>LogValDiff\<close> and \<open>UpdateLookup\<close> of the machine, with its lookup tables of type
    \<open>'lt\<close>;
  \<^item> \<open>distu\<close>, a draw from \<^verbatim>\<open>std::uniform_real_distribution<double>\<close> on \<open>[0, 1)\<close>;
  \<^item> \<open>distint b\<close>, a draw from \<^verbatim>\<open>std::uniform_int_distribution\<close> on \<open>[0, b]\<close>.
\<close>

record ('lt, 'g) sampler_env =
  LogValDiff :: "real list \<Rightarrow> nat list \<Rightarrow> real list \<Rightarrow> 'lt \<Rightarrow> complex"
  UpdateLookup :: "real list \<Rightarrow> nat list \<Rightarrow> real list \<Rightarrow> 'lt \<Rightarrow> 'lt"
  distu :: "'g \<Rightarrow> real \<times> 'g"
  distint :: "int \<Rightarrow> 'g \<Rightarrow> nat \<times> 'g"

text \<open>\<^verbatim>\<open>std::numeric_limits<double>::epsilon()\<close>.\<close>

definition dbl_epsilon :: real where
  "dbl_epsilon = 1 / 2 ^ 52"

text \<open>
  Modelled from the spec: \<^verbatim>\<open>UpdateConf\<close> of the Hilbert space, which
  \<^verbatim>\<open>Hilbert::UpdateConf\<close> forwards to and whose body is not among the sources.  The
  documentation (\<^verbatim>\<open>Docs/hilbert/Spin.md\<close>, \<^verbatim>\<open>update_conf\<close>) has it update a visible
  configuration from the list of the quantum numbers to be modified and the values
  they should take: entry \<open>tochange[i]\<close> of \<open>v\<close> becomes \<open>newconf[i]\<close>, in order.
\<close>

definition UpdateConf :: "real list \<Rightarrow> nat list \<Rightarrow> real list \<Rightarrow> real list" where
  "UpdateConf v tochange newconf = fold (\<lambda>(sf, x) w. w[sf := x]) (zip tochange newconf) v"

text \<open>\<^verbatim>\<open>GenerateClusters\<close> of \<^verbatim>\<open>MetropolisGlobal\<close>, and the same loops in
  \<^verbatim>\<open>ExchangeKernel::Init\<close>: the ordered pairs of distinct sites at distance at most
  \<open>dmax\<close>.\<close>

definition GenerateClusters :: "int list list \<Rightarrow> nat \<Rightarrow> int \<Rightarrow> nat list list" where
  "GenerateClusters distances nv dmax =
     concat (map (\<lambda>i. concat (map (\<lambda>j. if distances ! i ! j \<le> dmax \<and> i \<noteq> j then [[i, j]] else [])
                                  [0..<nv]))
                 [0..<nv])"

text \<open>\<^verbatim>\<open>L_ = int(std::sqrt(nv_) + 0.5)\<close>.\<close>

definition lattice_length :: "nat \<Rightarrow> nat" where
  "lattice_length nv = nat \<lfloor>sqrt (real nv) + 1 / 2\<rfloor>"

record ('lt, 'g) MetropolisGlobal =
  mg_nv :: nat
  mg_L :: nat
  mg_rgen :: 'g
  mg_v :: "real list"
  mg_accept :: "real list"
  mg_moves :: "real list"
  mg_clusters :: "nat list list"
  mg_lt :: 'lt

text \<open>
  The acceptance test, which \<^verbatim>\<open>Sweep\<close> spells out three times, once per kind of move
  (\<open>kind\<close> is the index into \<^verbatim>\<open>accept_\<close>): the ratio is the squared modulus of the
  exponential of \<open>LogValDiff\<close>, compared with a draw from \<open>distu\<close>; on acceptance the
  lookup tables are updated, then the configuration.  The engine is passed in and
  stored back.
\<close>

definition metropolis_test ::
  "('lt, 'g) sampler_env \<Rightarrow> ('lt, 'g) MetropolisGlobal \<Rightarrow> nat list \<Rightarrow> real list \<Rightarrow> nat \<Rightarrow> 'g
     \<Rightarrow> ('lt, 'g) MetropolisGlobal" where
  "metropolis_test env st tochange newconf kind g =
     (let ratio = (cmod (exp (LogValDiff env (mg_v st) tochange newconf (mg_lt st))))\<^sup>2;
          (u, g) = distu env g
      in if u < ratio
         then st\<lparr>mg_accept := (mg_accept st)[kind := mg_accept st ! kind + 1],
                 mg_lt := UpdateLookup env (mg_v st) tochange newconf (mg_lt st),
                 mg_v := UpdateConf (mg_v st) tochange newconf,
                 mg_rgen := g\<rparr>
         else st\<lparr>mg_rgen := g\<rparr>)"

text \<open>
  The loops that collect a column swap and a row swap.  \<^verbatim>\<open>v_reshape\<close> maps \<open>v\<close> as an
  \<open>L \<times> L\<close> matrix in column-major order: entry \<open>j\<close> of column \<open>r\<close> is \<open>v ! (r * L + j)\<close>,
  entry \<open>j\<close> of row \<open>r\<close> is \<open>v ! (j * L + r)\<close>.  The state of a loop is the pair of
  \<^verbatim>\<open>tochange\<close> and \<^verbatim>\<open>newconf\<close>.
\<close>

definition swap_col :: "real list \<Rightarrow> nat \<Rightarrow> nat \<Rightarrow> nat list \<times> real list" where
  "swap_col v L r =
     fold (\<lambda>j (tochange, newconf).
             if dbl_epsilon < v ! (r * L + j) - v ! (((r + 1) mod L) * L + j)
             then (tochange @ [r * L + j, ((r + 1) mod L) * L + j],
                   newconf @ [v ! (((r + 1) mod L) * L + j), v ! (r * L + j)])
             else (tochange, newconf))
          [0..<L] ([], [])"

definition swap_row :: "real list \<Rightarrow> nat \<Rightarrow> nat \<Rightarrow> nat list \<times> real list" where
  "swap_row v L r =
     fold (\<lambda>j (tochange, newconf).
             if dbl_epsilon < v ! (j * L + r) - v ! (j * L + (r + 1) mod L)
             then (tochange @ [j * L + r, j * L + (r + 1) mod L],
                   newconf @ [v ! (j * L + (r + 1) mod L), v ! (j * L + r)])
             else (tochange, newconf))
          [0..<L] ([], [])"

text \<open>
  One iteration of the loop of \<^verbatim>\<open>MetropolisGlobal::Sweep\<close>.  The two
  \<^verbatim>\<open>assert\<close>s of the source are checked.  The matrix view \<^verbatim>\<open>v_reshape\<close> covers \<open>L * L\<close>
  entries of \<open>v\<close>; the model reports a view that reaches beyond \<open>v\<close>.
\<close>

definition Sweep_iteration ::
  "('lt, 'g) sampler_env \<Rightarrow> ('lt, 'g) MetropolisGlobal \<Rightarrow> error + ('lt, 'g) MetropolisGlobal" where
  "Sweep_iteration env st =
     (let (u, g) = distu env (mg_rgen st) in
      if 2 / 10 < u
      then
        (let (rcl, g) = distint env (int (length (mg_clusters st)) - 1) g in
         if \<not> rcl < length (mg_clusters st) then Inl AssertionFailed
         else
           (let si = mg_clusters st ! rcl ! 0;
                sj = mg_clusters st ! rcl ! 1
            in if \<not> (si < mg_nv st \<and> sj < mg_nv st) then Inl AssertionFailed
               else
                 (let st = (if dbl_epsilon < \<bar>mg_v st ! si - mg_v st ! sj\<bar>
                            then metropolis_test env st (mg_clusters st ! rcl)
                                   [mg_v st ! sj, mg_v st ! si] 0 g
                            else st\<lparr>mg_rgen := g\<rparr>)
                  in Inr (st\<lparr>mg_moves := (mg_moves st)[0 := mg_moves st ! 0 + 1]\<rparr>))))
      else
        if \<not> mg_L st * mg_L st \<le> length (mg_v st) then Inl OutOfBounds
        else
          (let (r, g) = distint env (int (mg_L st) - 1) g;
               (u, g) = distu env g;
               (tochange, newconf) =
                 (if 5 / 10 < u then swap_col (mg_v st) (mg_L st) r
                  else swap_row (mg_v st) (mg_L st) r);
               st = (if tochange \<noteq> [] then metropolis_test env st tochange newconf 1 g
                     else st\<lparr>mg_rgen := g\<rparr>)
           in Inr (st\<lparr>mg_moves := (mg_moves st)[1 := mg_moves st ! 1 + 1]\<rparr>)))"

text \<open>\<^verbatim>\<open>Sweep\<close>: the loop \<^verbatim>\<open>for (int i = 0; i < nv_; i++)\<close>.\<close>

fun Sweep_loop ::
  "('lt, 'g) sampler_env \<Rightarrow> nat \<Rightarrow> ('lt, 'g) MetropolisGlobal \<Rightarrow> error + ('lt, 'g) MetropolisGlobal" where
  "Sweep_loop env 0 st = Inr st"
| "Sweep_loop env (Suc i) st =
     (case Sweep_iteration env st of
        Inl e \<Rightarrow> Inl e
      | Inr st' \<Rightarrow> Sweep_loop env i st')"

definition Sweep ::
  "('lt, 'g) sampler_env \<Rightarrow> ('lt, 'g) MetropolisGlobal \<Rightarrow> error + ('lt, 'g) MetropolisGlobal" where
  "Sweep env st = Sweep_loop env (mg_nv st) st"

text \<open>
  \<^verbatim>\<open>ExchangeKernel::operator()\<close>: \<open>vnew\<close> starts as a copy of \<open>v\<close>; in every row the
  values at the two sites of a cluster drawn at random are swapped; the correction
  of the log acceptance is set to zero.  The source asserts that both sites are below
  \<open>nv\<close>; the model also reports a cluster index outside \<^verbatim>\<open>clusters_\<close>.
\<close>

fun ExchangeKernel_rows ::
  "('lt, 'g) sampler_env \<Rightarrow> nat \<Rightarrow> nat list list \<Rightarrow> real list list \<Rightarrow> 'g
     \<Rightarrow> error + (real list list \<times> 'g)" where
  "ExchangeKernel_rows env nv clusters [] g = Inr ([], g)"
| "ExchangeKernel_rows env nv clusters (row # rows) g =
     (let (rcl, g) = distint env (int (length clusters) - 1) g in
      if \<not> rcl < length clusters then Inl OutOfBounds
      else
        (let si = clusters ! rcl ! 0;
             sj = clusters ! rcl ! 1
         in if \<not> (si < nv \<and> sj < nv) then Inl AssertionFailed
            else
              (case ExchangeKernel_rows env nv clusters rows g of
                 Inl e \<Rightarrow> Inl e
               | Inr (rows', g') \<Rightarrow> Inr (row[si := row ! sj, sj := row ! si] # rows', g'))))"

definition ExchangeKernel ::
  "('lt, 'g) sampler_env \<Rightarrow> nat \<Rightarrow> nat list list \<Rightarrow> real list list \<Rightarrow> 'g
     \<Rightarrow> error + (real list list \<times> real list \<times> 'g)" where
  "ExchangeKernel env nv clusters v g =
     (case ExchangeKernel_rows env nv clusters v g of
        Inl e \<Rightarrow> Inl e
      | Inr (vnew, g') \<Rightarrow> Inr (vnew, replicate (length v) 0, g'))"

subsection \<open>The exact variational driver\<close>

text \<open>
  Vectors and matrices of \<^verbatim>\<open>std::complex<double>\<close>, in exact arithmetic: a vector is
  the list of its coefficients, a matrix the list of its rows.  \<open>cdot\<close> is Eigen's
  \<^verbatim>\<open>dot\<close>, conjugate-linear in its first argument; \<open>adjoint nc M\<close> is the conjugate
  transpose of a matrix with \<open>nc\<close> columns; \<open>mul_diag A d\<close> is \<^verbatim>\<open>A * d.asDiagonal()\<close>;
  \<open>mat_mul nc A B\<close> is the product with a matrix \<open>B\<close> of \<open>nc\<close> columns; \<open>add_shift S s\<close>
  is \<^verbatim>\<open>S + Identity(n, n) * s\<close>.
\<close>

type_synonym cvec = "complex list"
type_synonym cmat = "complex list list"

definition cdot :: "cvec \<Rightarrow> cvec \<Rightarrow> complex" where
  "cdot a b = (\<Sum>i<length a. cnj (a ! i) * b ! i)"

definition mat_vec :: "cmat \<Rightarrow> cvec \<Rightarrow> cvec" where
  "mat_vec M x = map (\<lambda>row. \<Sum>j<length x. row ! j * x ! j) M"

definition adjoint :: "nat \<Rightarrow> cmat \<Rightarrow> cmat" where
  "adjoint nc M = map (\<lambda>j. map (\<lambda>row. cnj (row ! j)) M) [0..<nc]"

definition mul_diag :: "cmat \<Rightarrow> cvec \<Rightarrow> cmat" where
  "mul_diag A d = map (\<lambda>row. map (\<lambda>k. row ! k * d ! k) [0..<length d]) A"

definition mat_mul :: "nat \<Rightarrow> cmat \<Rightarrow> cmat \<Rightarrow> cmat" where
  "mat_mul nc A B = map (\<lambda>row. map (\<lambda>j. \<Sum>k<length B. row ! k * B ! k ! j) [0..<nc]) A"

definition add_shift :: "cmat \<Rightarrow> real \<Rightarrow> cmat" where
  "add_shift S s =
     map (\<lambda>i. map (\<lambda>j. S ! i ! j + (if i = j then of_real s else 0)) [0..<length S]) [0..<length S]"

text \<open>
  Modelled from the spec: \<^verbatim>\<open>MatrixReplacement\<close> of \<^verbatim>\<open>matrix_replacement.hpp\<close>, which
  is not among the sources.  The driver attaches the matrix \<open>O\<close> to it and sets a shift
  and a scale; the specification has the iterative solver use only the products
  \<open>S x = O\<^sup>H (O x)\<close>, scaled, with the diagonal shift added.  The model is that of one
  process.
\<close>

record MatrixReplacement =
  mr_matrix :: cmat
  mr_ncols :: nat
  mr_shift :: real
  mr_scale :: real

definition MatrixReplacement_apply :: "MatrixReplacement \<Rightarrow> cvec \<Rightarrow> cvec" where
  "MatrixReplacement_apply S x =
     (let y = mat_vec (adjoint (mr_ncols S) (mr_matrix S)) (mat_vec (mr_matrix S) x)
      in map (\<lambda>i. of_real (mr_scale S) * y ! i + of_real (mr_shift S) * x ! i) [0..<length x])"

text \<open>The \<^verbatim>\<open>GroundState\<close> section of the input, as far as \<^verbatim>\<open>VariationalExact::Init\<close>
  reads it; a field that is absent is \<open>None\<close>.  \<^verbatim>\<open>FieldVal\<close> raises on an absent field,
  \<^verbatim>\<open>FieldOrDefaultVal\<close> returns its default.\<close>

record GroundState_pars =
  Nsamples :: "int option"
  DiscardedSamplesOnInit :: "real option"
  DiscardedSamples :: "real option"
  NiterOpt :: "int option"
  Method :: "string option"
  DiagShift :: "real option"
  RescaleShift :: "bool option"
  UseIterative :: "bool option"
  UseCholesky :: "bool option"

definition FieldVal :: "'a option \<Rightarrow> error + 'a" where
  "FieldVal field = (case field of None \<Rightarrow> Inl InvalidInputError | Some x \<Rightarrow> Inr x)"

definition FieldOrDefaultVal :: "'a option \<Rightarrow> 'a \<Rightarrow> 'a" where
  "FieldOrDefaultVal field dflt = (case field of None \<Rightarrow> dflt | Some x \<Rightarrow> x)"

text \<open>The members of \<^verbatim>\<open>VariationalExact\<close> that \<^verbatim>\<open>Init\<close> and \<^verbatim>\<open>UpdateParameters\<close> use,
  with the prefix \<open>ve\<close>.\<close>

record VariationalExact =
  ve_npar :: nat
  ve_totalnodes :: int
  ve_nsamples :: int
  ve_nsamples_node :: int
  ve_ninitsamples :: int
  ve_ndiscardedsamples :: int
  ve_niter_opt :: int
  ve_dosr :: bool
  ve_use_cholesky :: bool
  ve_sr_diag_shift :: real
  ve_sr_rescale_shift :: bool
  ve_use_iterative :: bool
  ve_Ok :: cmat
  ve_psi2 :: cvec
  ve_elocs :: cvec
  ve_grad :: "dcomplex list"

definition setSrParameters :: "real \<Rightarrow> bool \<Rightarrow> bool \<Rightarrow> VariationalExact \<Rightarrow> VariationalExact" where
  "setSrParameters diagshift rescale_shift use_iterative' st =
     st\<lparr>ve_sr_diag_shift := diagshift, ve_sr_rescale_shift := rescale_shift,
        ve_use_iterative := use_iterative', ve_dosr := True\<rparr>"

text \<open>\<^verbatim>\<open>VariationalExact::Init\<close>; \<open>machine_npar\<close> is \<^verbatim>\<open>psi_.Npar()\<close> and \<open>comm_size'\<close> the
  size of \<^verbatim>\<open>MPI_COMM_WORLD\<close>.  The quota of one process is computed as in the Monte
  Carlo driver.\<close>

definition VariationalExact_Init ::
  "nat \<Rightarrow> int \<Rightarrow> GroundState_pars \<Rightarrow> VariationalExact \<Rightarrow> error + VariationalExact" where
  "VariationalExact_Init machine_npar comm_size' pars st =
     (let st = st\<lparr>ve_npar := machine_npar, ve_grad := replicate machine_npar (Fin 0, Fin 0)\<rparr>;
          st = setSrParameters (1 / 100) False False st;
          st = st\<lparr>ve_totalnodes := comm_size'\<rparr>
      in case FieldVal (Nsamples pars) of
           Inl e \<Rightarrow> Inl e
         | Inr nsamples' \<Rightarrow>
             (let st = st\<lparr>ve_nsamples := nsamples'\<rparr>;
                  st = st\<lparr>ve_nsamples_node :=
                         cpp_trunc (of_int \<lceil>real_of_int (ve_nsamples st)
                                              / real_of_int (ve_totalnodes st)\<rceil>)\<rparr>;
                  st = st\<lparr>ve_ninitsamples :=
                         cpp_trunc (FieldOrDefaultVal (DiscardedSamplesOnInit pars) 0)\<rparr>;
                  st = st\<lparr>ve_ndiscardedsamples :=
                         cpp_trunc (FieldOrDefaultVal (DiscardedSamples pars)
                                      (real_of_int (ve_nsamples_node st) / 10))\<rparr>
              in case FieldVal (NiterOpt pars) of
                   Inl e \<Rightarrow> Inl e
                 | Inr niter \<Rightarrow>
                     (let st = st\<lparr>ve_niter_opt := niter\<rparr>
                      in if Method pars = Some ''GdExact''
                         then Inr (st\<lparr>ve_dosr := False\<rparr>)
                         else
                           (let diagshift = FieldOrDefaultVal (DiagShift pars) (1 / 100);
                                rescale_shift = FieldOrDefaultVal (RescaleShift pars) False;
                                use_iterative' = FieldOrDefaultVal (UseIterative pars) False;
                                st = st\<lparr>ve_use_cholesky :=
                                       FieldOrDefaultVal (UseCholesky pars) True\<rparr>
                            in Inr (setSrParameters diagshift rescale_shift use_iterative' st)))))"

text \<open>Eigen's solvers and the optimizer, which are not part of these sources:
  the full-pivoting QR solve, the Cholesky solve, the conjugate gradient solve of a
  linear operator (tolerance \<open>1.0e-3\<close>) and \<^verbatim>\<open>opt_.Update\<close>.\<close>

record exact_env =
  solve_qr :: "cmat \<Rightarrow> cvec \<Rightarrow> cvec"
  solve_llt :: "cmat \<Rightarrow> cvec \<Rightarrow> cvec"
  solve_cg :: "(cvec \<Rightarrow> cvec) \<Rightarrow> cvec \<Rightarrow> cvec"
  opt_Update :: "dcomplex list \<Rightarrow> cvec \<Rightarrow> dcomplex list"

text \<open>
  \<^verbatim>\<open>VariationalExact::UpdateParameters\<close>, up to the optimizer's update; the broadcast
  of the parameters and the barriers that follow are left out.  \<open>nsamp\<close> is the
  number of rows of \<open>Ok\<close> (\<^verbatim>\<open>vsamp_.rows()\<close>).  The right-hand side \<open>b\<close> and the matrix of the
  direct path are weighted by \<open>psi2\<close>; the operator of the iterative path is built from
  \<open>Ok\<close>, the shift and the scale \<open>1 / (nsamp * totalnodes)\<close>.  The linear algebra up to
  the solution \<open>deltaP\<close> is exact complex arithmetic.  In both paths the rescaling
  divides the solution by the square root of the real part of
  \<^verbatim>\<open>deltaP.dot(S * deltaP)\<close>, in \<^verbatim>\<open>double\<close>: the square root of a negative number is not a
  number, a division by zero gives an infinity or not-a-number, and the result is
  stored in \<open>grad\<close> and handed to the optimizer as it is.
\<close>

definition UpdateParameters_exact ::
  "exact_env \<Rightarrow> VariationalExact \<Rightarrow> cvec \<Rightarrow> error + (VariationalExact \<times> dcomplex list)" where
  "UpdateParameters_exact env st pars =
     (case
        (if ve_dosr st
         then
           (let nsamp = length (ve_Ok st);
                b = mat_vec (mul_diag (adjoint (ve_npar st) (ve_Ok st)) (ve_psi2 st)) (ve_elocs st)
            in if \<not> ve_use_iterative st
               then
                 (let S = mat_mul (ve_npar st)
                            (mul_diag (adjoint (ve_npar st) (ve_Ok st)) (ve_psi2 st)) (ve_Ok st);
                      S = add_shift S (ve_sr_diag_shift st);
                      deltaP = (if ve_use_cholesky st = False then solve_qr env S b
                                else solve_llt env S b)
                  in if length deltaP \<noteq> length (ve_grad st) then Inl AssertionFailed
                     else if ve_sr_rescale_shift st
                     then
                       (let nor = cdot deltaP (mat_vec S deltaP)
                        in Inr (st\<lparr>ve_grad := map (\<lambda>x. cdiv Fin (cfin x) (dsqrt Fin (Fin (Re nor))))
                                                   deltaP\<rparr>))
                     else Inr (st\<lparr>ve_grad := map cfin deltaP\<rparr>))
               else
                 (let S = \<lparr>mr_matrix = ve_Ok st, mr_ncols = ve_npar st,
                           mr_shift = ve_sr_diag_shift st,
                           mr_scale = 1 / (real nsamp * real_of_int (ve_totalnodes st))\<rparr>;
                      deltaP = solve_cg env (MatrixReplacement_apply S) b
                  in if ve_sr_rescale_shift st
                     then
                       (let nor = cdot deltaP (MatrixReplacement_apply S deltaP)
                        in Inr (st\<lparr>ve_grad := map (\<lambda>x. cdiv Fin (cfin x) (dsqrt Fin (Fin (Re nor))))
                                                   deltaP\<rparr>))
                     else Inr (st\<lparr>ve_grad := map cfin deltaP\<rparr>)))
         else Inr st) of
        Inl e \<Rightarrow> Inl e
      | Inr st \<Rightarrow> Inr (st, opt_Update env (ve_grad st) pars))"

section \<open>Properties\<close>

subsection \<open>The drivers\<close>

lemma neg_div_neg_eq_ceiling_div:
  assumes "0 < (P::int)"
  shows "- ((- N) div P) = (N + P - 1) div P"
proof -
  define q where "q = (N + P - 1) div P"
  define r where "r = (N + P - 1) mod P"
  have r: "0 \<le> r" "r < P"
    using assms by (simp_all add: r_def)
  have "N + P - 1 = P * q + r"
    by (simp add: q_def r_def)
  then have "- N = P * (- q) + (P - 1 - r)"
    by (simp add: algebra_simps)
  moreover have "0 \<le> P - 1 - r" "P - 1 - r < P"
    using r by simp_all
  ultimately have "(- N) div P = - q"
    by (rule int_div_pos_eq)
  then show ?thesis
    by (simp add: q_def)
qed

lemma ceiling_divide_int:
  assumes "0 < P"
  shows "\<lceil>real_of_int N / real_of_int P\<rceil> = (N + P - 1) div P"
  using neg_div_neg_eq_ceiling_div [OF assms, of N]
  by (simp add: ceiling_divide_eq_div)

lemma cpp_trunc_of_int [simp]: "cpp_trunc (of_int n) = n"
  by (simp add: cpp_trunc_def)

lemma ceiling_div_bounds:
  assumes "0 < (P::int)"
  shows "P * ((N + P - 1) div P - 1) < N \<and> N \<le> P * ((N + P - 1) div P)"
proof -
  define q where "q = (N + P - 1) div P"
  define r where "r = (N + P - 1) mod P"
  have r: "0 \<le> r" "r < P"
    using assms by (simp_all add: r_def)
  have "N + P - 1 = P * q + r"
    by (simp add: q_def r_def)
  then have "N = P * q + r - P + 1"
    by simp
  with r show ?thesis
    unfolding q_def [symmetric] by (simp add: algebra_simps)
qed

text \<open>A target string has no influence on whether \<open>Init\<close> raises.\<close>

lemma Init_target_irrelevant:
  "isl (Init env (st\<lparr>target := t\<rparr>) n d di method ds it uc solver_name)
     = isl (Init env st n d di method ds it uc solver_name)"
  by (simp add: Init_def Let_def split: option.splits)

text \<open>
  \<^bold>\<open>C7\<close> (not met by the code).  Constructing the driver with a target string that is
  neither \<^verbatim>\<open>"energy"\<close> nor \<^verbatim>\<open>"variance"\<close> should raise \<^verbatim>\<open>InvalidInputError\<close> during
  initialisation.  Evaluated on one process with 1000 samples, target
  \<^verbatim>\<open>"fidelity"\<close> and gradient descent: the constructor returns a driver, no exception;
  the first \<^verbatim>\<open>Advance\<close> draws the samples, computes local values and statistics and
  only then raises, and what it raises is \<^verbatim>\<open>std::runtime_error\<close>.
\<close>

theorem Init_unknown_target_not_rejected:
  "VariationalMonteCarlo_new
      \<lparr>Npar = 2, IsHolomorphic = True, comm_size = 1,
       SolverFromString = (\<lambda>s. if s = ''LLT'' then Some (0::nat) else None)\<rparr>
      1000 (- 1) 0 ''fidelity'' ''Gd'' (1 / 100) False None ''LLT''
    = Inr \<lparr>totalnodes = 1, sr = None, nsamples = 1000, nsamples_node = 1000, ninitsamples = 0,
           ndiscard = 100, npar = 2, target = ''fidelity'', events = [EvBarrier]\<rparr>
   \<and> Advance 1 \<lparr>totalnodes = 1, sr = (None :: nat SR option), nsamples = 1000,
                 nsamples_node = 1000, ninitsamples = 0, ndiscard = 100, npar = 2,
                 target = ''fidelity'', events = [EvBarrier]\<rparr>
    = Inl (RuntimeError,
           \<lparr>totalnodes = 1, sr = None, nsamples = 1000, nsamples_node = 1000, ninitsamples = 0,
            ndiscard = 100, npar = 2, target = ''fidelity'',
            events = [EvBarrier, EvComputeSamples 1000 100, EvLocalValues, EvStatistics]\<rparr>)"
  by (simp add: VariationalMonteCarlo_new_def Init_def Advance_iteration_def cpp_trunc_def)

subsection \<open>The statistics engine\<close>

lemma dsum_Fin [simp]: "dsum Fin (map Fin xs) = Fin (sum_list xs)"
  by (induction xs) simp_all

lemma csum_cfin [simp]: "csum Fin (map cfin zs) = cfin (sum_list zs)"
  by (induction zs) (simp_all add: cfin_def cadd_def)

lemma welford_step_pos:
  fixes S1 S2 x n :: real
  assumes "0 < n"
  shows "S1 / n + (x - S1 / n) / (n + 1) = (S1 + x) / (n + 1)"
    and "S2 - S1\<^sup>2 / n + (x - S1 / n) * (x - (S1 + x) / (n + 1))
           = (S2 + x\<^sup>2) - (S1 + x)\<^sup>2 / (n + 1)"
proof -
  have n: "n \<noteq> 0" "n + 1 \<noteq> 0"
    using assms by simp_all
  show "S1 / n + (x - S1 / n) / (n + 1) = (S1 + x) / (n + 1)"
    using n by (simp add: divide_simps) (simp add: algebra_simps)
  show "S2 - S1\<^sup>2 / n + (x - S1 / n) * (x - (S1 + x) / (n + 1))
           = (S2 + x\<^sup>2) - (S1 + x)\<^sup>2 / (n + 1)"
    using n by (simp add: divide_simps power2_eq_square) (simp add: algebra_simps)
qed

lemma welford_step_real:
  fixes S1 S2 x :: real and N :: nat
  assumes "N = 0 \<Longrightarrow> S1 = 0 \<and> S2 = 0"
  shows "S1 / real N + (x - S1 / real N) / (real N + 1) = (S1 + x) / (real N + 1)"
    and "S2 - S1\<^sup>2 / real N
           + (x - S1 / real N) * (x - (S1 / real N + (x - S1 / real N) / (real N + 1)))
           = (S2 + x\<^sup>2) - (S1 + x)\<^sup>2 / (real N + 1)"
proof -
  show 1: "S1 / real N + (x - S1 / real N) / (real N + 1) = (S1 + x) / (real N + 1)"
  proof (cases "N = 0")
    case True
    with assms show ?thesis by simp
  next
    case False
    then have "0 < real N" by simp
    then show ?thesis by (rule welford_step_pos)
  qed
  have "S2 - S1\<^sup>2 / real N + (x - S1 / real N) * (x - (S1 + x) / (real N + 1))
           = (S2 + x\<^sup>2) - (S1 + x)\<^sup>2 / (real N + 1)"
  proof (cases "N = 0")
    case True
    with assms show ?thesis by simp
  next
    case False
    then have "0 < real N" by simp
    then show ?thesis by (rule welford_step_pos)
  qed
  then show "S2 - S1\<^sup>2 / real N
           + (x - S1 / real N) * (x - (S1 / real N + (x - S1 / real N) / (real N + 1)))
           = (S2 + x\<^sup>2) - (S1 + x)\<^sup>2 / (real N + 1)"
    by (simp only: 1)
qed

lemma kernel_Fin:
  "kernel Fin (int N + 1) (Fin a, Fin b) (Fin x)
     = (Fin (a + (x - a) / (real N + 1)),
        Fin (b + (x - a) * (x - (a + (x - a) / (real N + 1)))))"
proof -
  have "real N + 1 \<noteq> 0" by linarith
  then show ?thesis
    by (simp add: kernel_def dsub_def Let_def add.commute)
qed

lemma accumulate_Fin:
  assumes "length r = d"
  shows "accumulate Fin \<lparr>acc_mu = map (\<lambda>j. Fin (f j)) [0..<d], acc_M2 = map (\<lambda>j. Fin (g j)) [0..<d], acc_n = int N\<rparr>
           (map Fin r)
    = \<lparr>acc_mu = map (\<lambda>j. Fin (f j + (r ! j - f j) / (real N + 1))) [0..<d],
       acc_M2 = map (\<lambda>j. Fin (g j + (r ! j - f j)
                  * (r ! j - (f j + (r ! j - f j) / (real N + 1))))) [0..<d],
       acc_n = int N + 1\<rparr>"
  using assms by (simp add: accumulate_def Let_def kernel_Fin comp_def)

lemma welford_fold:
  assumes "\<forall>i<N. length (rr i) = d"
  shows "fold (\<lambda>i a. accumulate Fin a (map Fin (rr i))) [0..<N]
           \<lparr>acc_mu = replicate d (Fin 0), acc_M2 = replicate d (Fin 0), acc_n = 0\<rparr>
    = \<lparr>acc_mu = map (\<lambda>j. Fin ((\<Sum>i<N. rr i ! j) / real N)) [0..<d],
       acc_M2 = map (\<lambda>j. Fin ((\<Sum>i<N. (rr i ! j)\<^sup>2) - (\<Sum>i<N. rr i ! j)\<^sup>2 / real N)) [0..<d],
       acc_n = int N\<rparr>"
  using assms
proof (induction N)
  case 0
  show ?case by (simp add: map_replicate_const)
next
  case (Suc N)
  let ?S1 = "\<lambda>j. \<Sum>i<N. rr i ! j"
  let ?S2 = "\<lambda>j. \<Sum>i<N. (rr i ! j)\<^sup>2"
  have len: "length (rr N) = d"
    using Suc.prems by simp
  have IH: "fold (\<lambda>i a. accumulate Fin a (map Fin (rr i))) [0..<N]
           \<lparr>acc_mu = replicate d (Fin 0), acc_M2 = replicate d (Fin 0), acc_n = 0\<rparr>
    = \<lparr>acc_mu = map (\<lambda>j. Fin (?S1 j / real N)) [0..<d],
       acc_M2 = map (\<lambda>j. Fin (?S2 j - (?S1 j)\<^sup>2 / real N)) [0..<d],
       acc_n = int N\<rparr>"
    using Suc by simp
  have zero: "N = 0 \<Longrightarrow> ?S1 j = 0 \<and> ?S2 j = 0" for j
    by simp
  have m: "?S1 j / real N + (rr N ! j - ?S1 j / real N) / (real N + 1)
             = (\<Sum>i<Suc N. rr i ! j) / real (Suc N)" for j
    using welford_step_real(1) [where N = N and x = "rr N ! j" and ?S1.0 = "?S1 j" and ?S2.0 = "?S2 j", OF zero]
    by (simp add: add.commute)
  have q: "?S2 j - (?S1 j)\<^sup>2 / real N + (rr N ! j - ?S1 j / real N)
             * (rr N ! j - (?S1 j / real N + (rr N ! j - ?S1 j / real N) / (real N + 1)))
             = (\<Sum>i<Suc N. (rr i ! j)\<^sup>2) - (\<Sum>i<Suc N. rr i ! j)\<^sup>2 / real (Suc N)" for j
    using welford_step_real(2) [where N = N and x = "rr N ! j" and ?S1.0 = "?S1 j" and ?S2.0 = "?S2 j", OF zero]
    by (simp add: add.commute)
  have q2: "?S2 j - (?S1 j)\<^sup>2 / real N + (rr N ! j - ?S1 j / real N)
             * (rr N ! j - (\<Sum>i<Suc N. rr i ! j) / real (Suc N))
             = (\<Sum>i<Suc N. (rr i ! j)\<^sup>2) - (\<Sum>i<Suc N. rr i ! j)\<^sup>2 / real (Suc N)" for j
    using q [of j] by (simp only: m)
  have "fold (\<lambda>i a. accumulate Fin a (map Fin (rr i))) [0..<Suc N]
           \<lparr>acc_mu = replicate d (Fin 0), acc_M2 = replicate d (Fin 0), acc_n = 0\<rparr>
     = accumulate Fin \<lparr>acc_mu = map (\<lambda>j. Fin (?S1 j / real N)) [0..<d],
          acc_M2 = map (\<lambda>j. Fin (?S2 j - (?S1 j)\<^sup>2 / real N)) [0..<d], acc_n = int N\<rparr> (map Fin (rr N))"
    by (simp only: upt_Suc_append [OF le0] fold_append comp_def fold_simps IH)
  also have "\<dots> = \<lparr>acc_mu = map (\<lambda>j. Fin ((\<Sum>i<Suc N. rr i ! j) / real (Suc N))) [0..<d],
       acc_M2 = map (\<lambda>j. Fin ((\<Sum>i<Suc N. (rr i ! j)\<^sup>2) - (\<Sum>i<Suc N. rr i ! j)\<^sup>2 / real (Suc N))) [0..<d],
       acc_n = int N + 1\<rparr>"
    by (simp only: accumulate_Fin [OF len] m q2)
  finally show ?case
    by simp
qed

lemma as_doubles_nth:
  "t < 2 * length zs \<Longrightarrow>
     as_doubles zs ! t = (if even t then fst (zs ! (t div 2)) else snd (zs ! (t div 2)))"
proof (induction zs arbitrary: t)
  case Nil
  then show ?case by simp
next
  case (Cons z zs)
  show ?case
  proof (cases "t < 2")
    case True
    then have "t = 0 \<or> t = 1" by auto
    then show ?thesis by (auto simp: as_doubles_def)
  next
    case False
    then obtain s where s: "t = s + 2"
      by (metis add.commute le_add_diff_inverse not_less)
    with Cons.prems have "s < 2 * length zs" by simp
    from Cons.IH [OF this] show ?thesis
      using s by (simp add: as_doubles_def nth_append)
  qed
qed

lemma length_as_doubles [simp]: "length (as_doubles zs) = 2 * length zs"
  by (induction zs) (simp_all add: as_doubles_def)

lemma as_doubles_cfin:
  "as_doubles (map cfin zs)
     = map (\<lambda>t. Fin (if even t then Re (zs ! (t div 2)) else Im (zs ! (t div 2)))) [0..<2 * length zs]"
  by (rule nth_equalityI) (simp_all add: as_doubles_nth cfin_def)

lemma take_drop_map_upt:
  assumes "a + b \<le> N"
  shows "take b (drop a (map F [0..<N])) = map (\<lambda>j. F (a + j)) [0..<b]"
proof (rule nth_equalityI)
  show "length (take b (drop a (map F [0..<N]))) = length (map (\<lambda>j. F (a + j)) [0..<b])"
    using assms by simp
next
  fix i
  assume "i < length (take b (drop a (map F [0..<N])))"
  then have "i < b" by simp
  with assms show "take b (drop a (map F [0..<N])) ! i = map (\<lambda>j. F (a + j)) [0..<b] ! i"
    by simp
qed

lemma sample_block:
  assumes "length zs = N * k" "i < N"
  shows "take (2 * k) (drop (i * (2 * k)) (as_doubles (map cfin zs)))
     = map Fin (map (\<lambda>j. if even j then Re (zs ! (i * k + j div 2)) else Im (zs ! (i * k + j div 2)))
                 [0..<2 * k])"
proof -
  have "Suc i \<le> N" using assms by simp
  then have "Suc i * (2 * k) \<le> N * (2 * k)"
    by (rule mult_le_mono1)
  then have le: "i * (2 * k) + 2 * k \<le> 2 * length zs"
    using assms by (simp add: algebra_simps)
  have d: "(i * (2 * k) + j) div 2 = i * k + j div 2" for j
    by (simp add: algebra_simps)
  have e: "even (i * (2 * k) + j) = even j" for j
    by simp
  show ?thesis
    unfolding as_doubles_cfin take_drop_map_upt [OF le] d e
    by (simp add: comp_def)
qed



lemma sum_list_upt_sum: "sum_list (map f [0..<N]) = (\<Sum>i<N. f i)"
  by (simp add: interv_sum_list_conv_sum_set_nat atLeast0LessThan)

lemma chain_length: "0 < k \<Longrightarrow> length zs = N * k \<Longrightarrow> length (chain k c zs) = N"
  by (simp add: chain_def)

lemma arith_mean_chain:
  assumes "0 < k" "length zs = N * k"
  shows "arith_mean (map g (chain k c zs)) = (\<Sum>i<N. g (zs ! (i * k + c))) / real N"
  using assms by (simp add: arith_mean_def chain_def comp_def sum_list_upt_sum)


lemma StatisticsLocal_unfold:
  assumes "0 < k" "length values = N * k"
  shows "StatisticsLocal rnd values (int k)
    = (let acc = fold (\<lambda>i a. accumulate rnd a (take (2 * k) (drop (i * (2 * k)) (as_doubles values))))
                   [0..<N] \<lparr>acc_mu = replicate (2 * k) (Fin 0), acc_M2 = replicate (2 * k) (Fin 0), acc_n = 0\<rparr>
       in Inr (as_complex (fst (finish rnd acc)),
               take k (fold (\<lambda>i v. v[i := dadd rnd (v ! (2 * i)) (v ! (2 * i + 1))]) [0..<k]
                         (snd (finish rnd acc)))))"
proof -
  have "int (N * k) div int k = int N"
    using assms(1) by (metis nonzero_mult_div_cancel_right of_nat_0_less_iff of_nat_mult order_less_irrefl)
  then show ?thesis
    using assms
    by (simp add: StatisticsLocal_def MeanAndVarianceAccumulator_new_def Let_def split_beta)
qed


lemma scaled_M2:
  assumes "2 \<le> N"
  shows "dmul Fin (Fin (S2 - S1\<^sup>2 / real N)) (ddiv Fin (Fin 1) (Fin (real N)))
           = Fin (S2 / real N - (S1 / real N)\<^sup>2)"
proof -
  have "real N \<noteq> 0" using assms by simp
  then show ?thesis
    by (simp add: field_simps power2_eq_square)
qed


lemma StatisticsLocal_Inl_iff:
  "StatisticsLocal rnd values k = Inl e \<longleftrightarrow>
     e = InvalidInputError \<and> (\<not> 0 < k \<or> int (length values) mod k \<noteq> 0)"
  by (auto simp: StatisticsLocal_def MeanAndVarianceAccumulator_new_def Let_def split_beta)

lemma Statistics_Inr:
  assumes "StatisticsLocal rnd values k = Inr sl" "k \<le> int (length values)"
  shows "\<exists>st. Statistics rnd peers values k = Inr st"
  using assms by (simp add: Statistics_def Let_def)

lemma Statistics_Inl_iff:
  "Statistics rnd peers values k = Inl e \<longleftrightarrow>
     e = InvalidInputError \<and>
     (int (length values) < k \<or> \<not> 0 < k \<or> int (length values) mod k \<noteq> 0)"
proof (cases "StatisticsLocal rnd values k")
  case (Inl e')
  then show ?thesis
    using StatisticsLocal_Inl_iff [of rnd "values" k e']
    by (auto simp: Statistics_def)
next
  case (Inr sl)
  then have ok: "0 < k \<and> int (length values) mod k = 0"
    using StatisticsLocal_Inl_iff [of rnd "values" k InvalidInputError] by auto
  show ?thesis
  proof (cases "k \<le> int (length values)")
    case True
    from Statistics_Inr [OF Inr True, of peers] ok True show ?thesis
      by auto
  next
    case False
    then show ?thesis
      by (auto simp: Statistics_def)
  qed
qed

text \<open>
  \<^bold>\<open>C3\<close>.  For a positive chain count, \<open>Statistics\<close> fails with
  \<open>InvalidInputError\<close> exactly when the number of values is not a multiple of the
  chain count or is smaller than the chain count; on every other input it returns a
  \<open>Stats\<close> value.  The rounding has no part in it.
\<close>

theorem Statistics_shape_error:
  assumes "0 < k"
  shows "(Statistics rnd peers values k = Inl InvalidInputError
            \<longleftrightarrow> int (length values) mod k \<noteq> 0 \<or> int (length values) < k)
       \<and> (int (length values) mod k = 0 \<and> k \<le> int (length values)
            \<longrightarrow> (\<exists>st. Statistics rnd peers values k = Inr st))"
proof -
  have 1: "Statistics rnd peers values k = Inl InvalidInputError
            \<longleftrightarrow> int (length values) mod k \<noteq> 0 \<or> int (length values) < k"
    using assms by (auto simp: Statistics_Inl_iff)
  have 2: "\<exists>st. Statistics rnd peers values k = Inr st"
    if "int (length values) mod k = 0 \<and> k \<le> int (length values)"
  proof (cases "Statistics rnd peers values k")
    case (Inl e)
    with that assms show ?thesis
      by (auto simp: Statistics_Inl_iff)
  next
    case (Inr st)
    then show ?thesis by blast
  qed
  from 1 2 show ?thesis by blast
qed

theorem Statistics_shape_error_witness:
  "Statistics Fin [] [(Fin 1, Fin 0), (Fin 2, Fin 0), (Fin 3, Fin 0)] 2 = Inl InvalidInputError
   \<and> Statistics Fin [] [(Fin 1, Fin 0)] 2 = Inl InvalidInputError
   \<and> (\<exists>st. Statistics Fin [] [(Fin 1, Fin 0), (Fin 2, Fin 0), (Fin 3, Fin 0), (Fin 5, Fin 0)] 2 = Inr st)"
  using Statistics_shape_error [of 2 Fin "[]" "[(Fin 1, Fin 0), (Fin 2, Fin 0), (Fin 3, Fin 0)]"]
        Statistics_shape_error [of 2 Fin "[]" "[(Fin 1, Fin 0)]"]
        Statistics_shape_error [of 2 Fin "[]" "[(Fin 1, Fin 0), (Fin 2, Fin 0), (Fin 3, Fin 0), (Fin 5, Fin 0)]"]
  by simp

lemma fold_nth_upt: "fold (\<lambda>i a. f a (xs ! i)) [0..<length xs] a0 = fold (\<lambda>x a. f a x) xs a0"
proof -
  have "fold (\<lambda>x a. f a x) (map (\<lambda>i. xs ! i) [0..<length xs]) a0
          = fold (\<lambda>i a. f a (xs ! i)) [0..<length xs] a0"
    by (simp add: fold_map comp_def)
  then show ?thesis
    by (simp add: map_nth)
qed

text \<open>
  \<^bold>\<open>C4\<close> (as amended).  In exact arithmetic, fed a non-empty sequence of samples, each
  a block of \<open>d\<close> finite numbers, the accumulator leaves in component \<open>j\<close> of its mean buffer the
  arithmetic mean of the \<open>j\<close>-th components, and in component \<open>j\<close> of its variance
  buffer their two-pass population variance \<open>mean (x\<^sup>2) - (mean x)\<^sup>2\<close> when there are at
  least two samples.  With a single sample the variance is not a number.
\<close>

theorem Welford_matches_two_pass:
  assumes "rows \<noteq> []" "\<forall>r\<in>set rows. length r = d" "j < d"
  shows "\<exists>acc. MeanAndVarianceAccumulator_new d d = Inr acc
       \<and> fst (finish Fin (fold (\<lambda>r a. accumulate Fin a (map Fin r)) rows acc)) ! j
            = Fin (arith_mean (map (\<lambda>r. r ! j) rows))
       \<and> snd (finish Fin (fold (\<lambda>r a. accumulate Fin a (map Fin r)) rows acc)) ! j
            = (if length rows = 1 then NaN else Fin (two_pass_variance (map (\<lambda>r. r ! j) rows)))"
proof -
  let ?N = "length rows"
  let ?acc0 = "\<lparr>acc_mu = replicate d (Fin 0), acc_M2 = replicate d (Fin 0), acc_n = 0\<rparr>"
  let ?S1 = "\<lambda>j. \<Sum>i<?N. rows ! i ! j"
  let ?S2 = "\<lambda>j. \<Sum>i<?N. (rows ! i ! j)\<^sup>2"
  have N: "0 < ?N" using assms(1) by simp
  have len: "\<forall>i<?N. length (rows ! i) = d"
    using assms(2) by simp
  have "fold (\<lambda>r a. accumulate Fin a (map Fin r)) rows ?acc0
          = fold (\<lambda>i a. accumulate Fin a (map Fin (rows ! i))) [0..<?N] ?acc0"
    by (rule fold_nth_upt [symmetric, where f = "\<lambda>a r. accumulate Fin a (map Fin r)"])
  also note welford_fold [OF len]
  finally have acc: "fold (\<lambda>r a. accumulate Fin a (map Fin r)) rows ?acc0
     = \<lparr>acc_mu = map (\<lambda>j. Fin (?S1 j / real ?N)) [0..<d],
        acc_M2 = map (\<lambda>j. Fin (?S2 j - (?S1 j)\<^sup>2 / real ?N)) [0..<d],
        acc_n = int ?N\<rparr>" .
  have col: "map (\<lambda>r. r ! j) rows = map (\<lambda>i. rows ! i ! j) [0..<?N]"
    by (rule nth_equalityI) simp_all
  have s1: "sum_list (map (\<lambda>r. r ! j) rows) = ?S1 j"
    unfolding col by (rule sum_list_upt_sum)
  have s2: "sum_list (map (\<lambda>x. x\<^sup>2) (map (\<lambda>r. r ! j) rows)) = ?S2 j"
    unfolding col map_map comp_def by (rule sum_list_upt_sum)
  have m: "fst (finish Fin (fold (\<lambda>r a. accumulate Fin a (map Fin r)) rows ?acc0)) ! j
            = Fin (arith_mean (map (\<lambda>r. r ! j) rows))"
    unfolding acc using N assms(3) by (simp add: finish_def Let_def arith_mean_def s1)
  have v: "snd (finish Fin (fold (\<lambda>r a. accumulate Fin a (map Fin r)) rows ?acc0)) ! j
            = (if ?N = 1 then NaN else Fin (two_pass_variance (map (\<lambda>r. r ! j) rows)))"
  proof (cases "?N = 1")
    case True
    then show ?thesis
      unfolding acc using assms(3) by (simp add: finish_def)
  next
    case False
    with N have "2 \<le> ?N" by arith
    then show ?thesis
      unfolding acc two_pass_variance_def arith_mean_def s1 s2 using assms(1,3) False
      by (simp add: finish_def Let_def scaled_M2 del: dmul.simps ddiv.simps)
  qed
  show ?thesis
    using m v by (simp add: MeanAndVarianceAccumulator_new_def)
qed

theorem Welford_matches_two_pass_witness:
  "\<exists>acc. MeanAndVarianceAccumulator_new 1 1 = Inr acc
       \<and> fst (finish Fin (fold (\<lambda>r a. accumulate Fin a (map Fin r)) [[1], [3], [4]] acc)) ! 0 = Fin (8 / 3)
       \<and> snd (finish Fin (fold (\<lambda>r a. accumulate Fin a (map Fin r)) [[1], [3], [4]] acc)) ! 0 = Fin (14 / 9)"
  using Welford_matches_two_pass [of "[[1], [3], [4]]" 1 0]
  by (simp add: arith_mean_def two_pass_variance_def power2_eq_square)

text \<open>The statement of the specification, for every non-empty sequence, fails for a sequence of
  one sample: the destructor overwrites the variance with not-a-number, while the
  two-pass formula gives zero.\<close>

theorem Welford_single_sample_counterexample:
  "MeanAndVarianceAccumulator_new 1 1 = Inr \<lparr>acc_mu = [Fin 0], acc_M2 = [Fin 0], acc_n = 0\<rparr>
   \<and> finish Fin (accumulate Fin \<lparr>acc_mu = [Fin 0], acc_M2 = [Fin 0], acc_n = 0\<rparr> [Fin 5]) = ([Fin 5], [NaN])
   \<and> snd (finish Fin (accumulate Fin \<lparr>acc_mu = [Fin 0], acc_M2 = [Fin 0], acc_n = 0\<rparr> [Fin 5])) ! 0
        \<noteq> Fin (two_pass_variance [5])"
  by (simp add: MeanAndVarianceAccumulator_new_def finish_def accumulate_def kernel_def dsub_def
                two_pass_variance_def arith_mean_def)


lemma Re_sum_list: "Re (sum_list zs) = sum_list (map Re zs)"
  by (induction zs) simp_all

lemma Im_sum_list: "Im (sum_list zs) = sum_list (map Im zs)"
  by (induction zs) simp_all

lemma chain_mean_eq: "chain_mean zs = sum_list zs / of_nat (length zs)"
  by (simp add: chain_mean_def arith_mean_def complex_eq_iff Re_sum_list Im_sum_list)

lemma chain_single: "chain (Suc 0) 0 zs = zs"
  by (simp add: chain_def map_nth)

lemma cadd_cfin [simp]: "cadd Fin (cfin a) (cfin b) = cfin (a + b)"
  by (simp add: cadd_def cfin_def)

lemma cfin_zero: "(Fin 0, Fin 0) = cfin 0"
  by (simp add: cfin_def)

lemma cdiv_cfin: "r \<noteq> 0 \<Longrightarrow> cdiv Fin (cfin z) (Fin r) = cfin (z / of_real r)"
  by (simp add: cdiv_def cfin_def)

lemma dadd_NaN_right [simp]: "dadd rnd x NaN = NaN"
  by (cases x) simp_all

lemma dmul_NaN_right [simp]: "dmul rnd x NaN = NaN"
  by (cases x) simp_all

lemma ddiv_NaN_right [simp]: "ddiv rnd x NaN = NaN"
  by (cases x) simp_all




lemma accumulate_simps [simp]:
  "length (acc_mu (accumulate rnd a xs)) = length (acc_mu a)"
  "length (acc_M2 (accumulate rnd a xs)) = length (acc_mu a)"
  "acc_n (accumulate rnd a xs) = acc_n a + 1"
  by (simp_all add: accumulate_def Let_def)




lemma length_finish [simp]: "length (snd (finish rnd a)) = length (acc_M2 a)"
  by (simp add: finish_def Let_def)





lemma abs_sum_bound:
  fixes f :: "nat \<Rightarrow> real"
  assumes "\<forall>i<N. \<bar>f i\<bar> \<le> K"
  shows "\<bar>\<Sum>i<N. f i\<bar> \<le> real N * K"
proof -
  have "\<bar>\<Sum>i<N. f i\<bar> \<le> (\<Sum>i<N. \<bar>f i\<bar>)"
    by (rule sum_abs)
  also have "\<dots> \<le> (\<Sum>i<N. K)"
    by (rule sum_mono) (use assms in simp)
  finally show ?thesis by simp
qed

lemma kernel_mean_exact:
  assumes exact: "\<forall>r. \<bar>r\<bar> \<le> M \<longrightarrow> rnd r = Fin r"
      and S: "\<bar>S\<bar> \<le> real N * (M / 2)" and x: "\<bar>x\<bar> \<le> M / 2"
  shows "fst (kernel rnd (int N + 1) (Fin (S / real N), m2) (Fin x)) = Fin ((S + x) / (real N + 1))"
proof -
  have M: "0 \<le> M" using x by linarith
  have S0: "N = 0 \<Longrightarrow> S = 0" using S by simp
  have a: "\<bar>S / real N\<bar> \<le> M / 2"
  proof (cases "N = 0")
    case True
    then show ?thesis using M by simp
  next
    case False
    then have "0 < real N" by simp
    then show ?thesis
      using S by (simp add: field_simps)
  qed
  have 1: "\<bar>x - S / real N\<bar> \<le> M"
    using a x by linarith
  have "\<bar>(x - S / real N) / (real N + 1)\<bar> = \<bar>x - S / real N\<bar> / (real N + 1)"
    by simp
  also have "\<dots> \<le> \<bar>x - S / real N\<bar>"
    by (simp add: field_simps mult_left_mono)
  finally have 2: "\<bar>(x - S / real N) / (real N + 1)\<bar> \<le> M"
    using 1 by linarith
  have eq: "S / real N + (x - S / real N) / (real N + 1) = (S + x) / (real N + 1)"
    by (rule welford_step_real(1) [where ?S2.0 = 0]) (use S0 in simp)
  have "\<bar>S + x\<bar> \<le> \<bar>S\<bar> + \<bar>x\<bar>"
    by (rule abs_triangle_ineq)
  also have "\<dots> \<le> real N * (M / 2) + M / 2"
    using S x by (rule add_mono)
  also have "\<dots> = (real N + 1) * (M / 2)"
    by (simp add: algebra_simps)
  finally have "\<bar>S + x\<bar> \<le> (real N + 1) * (M / 2)" .
  then have "\<bar>(S + x) / (real N + 1)\<bar> \<le> M / 2"
    by (simp add: field_simps)
  then have 3: "\<bar>(S + x) / (real N + 1)\<bar> \<le> M"
    using M by linarith
  have n0: "real N + 1 \<noteq> 0" by linarith
  show ?thesis
    using exact 1 2 3 n0
    by (simp add: kernel_def dsub_def Let_def eq)
qed

lemma accumulate_mu_nth:
  "j < length (acc_mu a) \<Longrightarrow>
     acc_mu (accumulate rnd a xs) ! j
       = fst (kernel rnd (acc_n a + 1) (acc_mu a ! j, acc_M2 a ! j) (xs ! j))"
  by (simp add: accumulate_def Let_def)

lemma fold_accumulate_mean:
  assumes exact: "\<forall>r. \<bar>r\<bar> \<le> M \<longrightarrow> rnd r = Fin r"
      and len: "\<forall>i<N. length (rr i) = d"
      and bnd: "\<forall>i<N. \<forall>j<d. \<bar>rr i ! j\<bar> \<le> M / 2"
      and a0: "acc_mu a0 = replicate d (Fin 0)" "acc_n a0 = 0"
  shows "length (acc_mu (fold (\<lambda>i a. accumulate rnd a (map Fin (rr i))) [0..<N] a0)) = d
       \<and> acc_n (fold (\<lambda>i a. accumulate rnd a (map Fin (rr i))) [0..<N] a0) = int N
       \<and> (\<forall>j<d. acc_mu (fold (\<lambda>i a. accumulate rnd a (map Fin (rr i))) [0..<N] a0) ! j
                  = Fin ((\<Sum>i<N. rr i ! j) / real N))"
  using len bnd
proof (induction N)
  case 0
  show ?case using a0 by simp
next
  case (Suc N)
  let ?a = "fold (\<lambda>i a. accumulate rnd a (map Fin (rr i))) [0..<N] a0"
  from Suc have IH: "length (acc_mu ?a) = d" "acc_n ?a = int N"
      "\<And>j. j < d \<Longrightarrow> acc_mu ?a ! j = Fin ((\<Sum>i<N. rr i ! j) / real N)"
    by simp_all
  have step: "fold (\<lambda>i a. accumulate rnd a (map Fin (rr i))) [0..<Suc N] a0
                = accumulate rnd ?a (map Fin (rr N))"
    by simp
  have "acc_mu (accumulate rnd ?a (map Fin (rr N))) ! j = Fin ((\<Sum>i<Suc N. rr i ! j) / real (Suc N))"
    if j: "j < d" for j
  proof -
    have S: "\<bar>\<Sum>i<N. rr i ! j\<bar> \<le> real N * (M / 2)"
      by (rule abs_sum_bound) (use Suc.prems(2) j in simp)
    have x: "\<bar>rr N ! j\<bar> \<le> M / 2"
      using Suc.prems(2) j by simp
    have l: "length (rr N) = d" using Suc.prems(1) by simp
    have "acc_mu (accumulate rnd ?a (map Fin (rr N))) ! j
            = fst (kernel rnd (int N + 1) (Fin ((\<Sum>i<N. rr i ! j) / real N), acc_M2 ?a ! j) (Fin (rr N ! j)))"
      using j l by (simp add: accumulate_mu_nth IH)
    also note kernel_mean_exact [OF exact S x]
    finally show ?thesis
      by (simp add: add.commute)
  qed
  then show ?case
    unfolding step using IH(1,2) by simp
qed

lemma StatisticsLocal_mean_bounded:
  assumes k: "0 < k" and len: "length zs = N * k" and N: "0 < N"
      and exact: "\<forall>r. \<bar>r\<bar> \<le> M \<longrightarrow> rnd r = Fin r"
      and bnd: "\<forall>z\<in>set zs. \<bar>Re z\<bar> \<le> M / 2 \<and> \<bar>Im z\<bar> \<le> M / 2"
  shows "\<exists>vs. StatisticsLocal rnd (map cfin zs) (int k)
           = Inr (map (\<lambda>c. cfin (chain_mean (chain k c zs))) [0..<k], vs)"
proof -
  define rr where "rr i = map (\<lambda>j. if even j then Re (zs ! (i * k + j div 2))
                                   else Im (zs ! (i * k + j div 2))) [0..<2 * k]" for i
  let ?a0 = "\<lparr>acc_mu = replicate (2 * k) (Fin 0), acc_M2 = replicate (2 * k) (Fin 0), acc_n = 0\<rparr>"
  let ?acc = "fold (\<lambda>i a. accumulate rnd a (take (2 * k) (drop (i * (2 * k)) (as_doubles (map cfin zs)))))
                [0..<N] ?a0"
  have acc: "?acc = fold (\<lambda>i a. accumulate rnd a (map Fin (rr i))) [0..<N] ?a0"
    by (rule fold_cong) (simp_all add: sample_block [OF len] rr_def)
  have l: "\<forall>i<N. length (rr i) = 2 * k"
    by (simp add: rr_def)
  have idx: "i * k + j div 2 < length zs" if "i < N" "j < 2 * k" for i j
  proof -
    have "j div 2 < k" using that(2) by simp
    then have "i * k + j div 2 < Suc i * k" by simp
    also have "\<dots> \<le> N * k"
      by (rule mult_le_mono1) (use that(1) in simp)
    finally show ?thesis by (simp add: len)
  qed
  have b: "\<forall>i<N. \<forall>j<2 * k. \<bar>rr i ! j\<bar> \<le> M / 2"
    using bnd idx by (auto simp: rr_def)
  note inv = fold_accumulate_mean [OF exact l b, of ?a0, folded acc]
  have mu: "fst (finish rnd ?acc) = acc_mu ?acc"
    using inv N by (simp add: finish_def Let_def)
  have mean: "as_complex (acc_mu ?acc) = map (\<lambda>c. cfin (chain_mean (chain k c zs))) [0..<k]"
  proof (rule nth_equalityI)
    show "length (as_complex (acc_mu ?acc)) = length (map (\<lambda>c. cfin (chain_mean (chain k c zs))) [0..<k])"
      using inv by (simp add: as_complex_def)
  next
    fix c
    assume "c < length (as_complex (acc_mu ?acc))"
    then have c: "c < k" using inv by (simp add: as_complex_def)
    then have "2 * c < 2 * k" "2 * c + 1 < 2 * k" by simp_all
    with inv have "acc_mu ?acc ! (2 * c) = Fin ((\<Sum>i<N. rr i ! (2 * c)) / real N)"
        "acc_mu ?acc ! (2 * c + 1) = Fin ((\<Sum>i<N. rr i ! (2 * c + 1)) / real N)"
      by simp_all
    then show "as_complex (acc_mu ?acc) ! c = map (\<lambda>c. cfin (chain_mean (chain k c zs))) [0..<k] ! c"
      using c inv
      by (simp add: as_complex_def cfin_def chain_mean_def arith_mean_chain [OF k len] rr_def)
  qed
  show ?thesis
    unfolding StatisticsLocal_unfold [OF k, of "map cfin zs" N, simplified, OF len] Let_def mu mean
    by blast
qed

lemma arith_mean_bound:
  assumes "\<forall>x\<in>set xs. \<bar>x\<bar> \<le> K" "0 \<le> K"
  shows "\<bar>arith_mean xs\<bar> \<le> K"
proof (cases "xs = []")
  case True
  then show ?thesis using assms(2) by (simp add: arith_mean_def)
next
  case False
  have "\<bar>sum_list ys\<bar> \<le> real (length ys) * K" if "\<forall>x\<in>set ys. \<bar>x\<bar> \<le> K" for ys
    using that
  proof (induction ys)
    case Nil
    show ?case by simp
  next
    case (Cons y ys)
    have "\<bar>y + sum_list ys\<bar> \<le> \<bar>y\<bar> + \<bar>sum_list ys\<bar>"
      by (rule abs_triangle_ineq)
    also have "\<dots> \<le> K + real (length ys) * K"
      by (rule add_mono) (use Cons in simp_all)
    finally show ?case by (simp add: algebra_simps)
  qed
  from this [OF assms(1)] False show ?thesis
    by (simp add: arith_mean_def field_simps)
qed

lemma Statistics_single_chain_mean:
  assumes zs: "zs \<noteq> []"
      and exact: "\<forall>r. \<bar>r\<bar> \<le> M \<longrightarrow> rnd r = Fin r"
      and bnd: "\<forall>z\<in>set zs. \<bar>Re z\<bar> \<le> M / 2 \<and> \<bar>Im z\<bar> \<le> M / 2"
  shows "Statistics rnd [] (map cfin zs) 1
           = Inr \<lparr>mean = cfin (sum_list zs / of_nat (length zs)),
                  error_of_mean = NaN, variance = NaN, correlation = NaN, R = NaN\<rparr>"
proof -
  have N: "0 < length zs" using zs by simp
  obtain z0 where "z0 \<in> set zs" using zs by (cases zs) auto
  with bnd have M: "0 \<le> M / 2" by fastforce
  from StatisticsLocal_mean_bounded [of 1 zs "length zs", OF _ _ N exact bnd]
  obtain vs where sl: "StatisticsLocal rnd (map cfin zs) 1 = Inr ([cfin (chain_mean zs)], vs)"
    by (auto simp: chain_single)
  have "\<bar>arith_mean (map Re zs)\<bar> \<le> M / 2" "\<bar>arith_mean (map Im zs)\<bar> \<le> M / 2"
    by (rule arith_mean_bound; use bnd M in auto)+
  then have "\<bar>Re (chain_mean zs)\<bar> \<le> M / 2" "\<bar>Im (chain_mean zs)\<bar> \<le> M / 2"
    by (simp_all add: chain_mean_def)
  then have r: "rnd (Re (chain_mean zs)) = Fin (Re (chain_mean zs))"
      "rnd (Im (chain_mean zs)) = Fin (Im (chain_mean zs))"
    using exact M by simp_all
  have len: "(1::int) \<le> int (length zs)" using N by linarith
  show ?thesis
    using len
    by (simp add: Statistics_def sl Let_def MPI_Allreduce_SUM_complex_def cadd_def cdiv_def
          cfin_def r chain_mean_eq [symmetric])
qed

lemma two_samples:
  "StatisticsLocal rnd [(a, b), (c, d)] 1
     = Inr ([(fst (kernel rnd 2 (kernel rnd 1 (Fin 0, Fin 0) a) c),
              fst (kernel rnd 2 (kernel rnd 1 (Fin 0, Fin 0) b) d))],
            [dadd rnd (dmul rnd (snd (kernel rnd 2 (kernel rnd 1 (Fin 0, Fin 0) a) c)) (ddiv rnd (Fin 1) (Fin 2)))
                      (dmul rnd (snd (kernel rnd 2 (kernel rnd 1 (Fin 0, Fin 0) b) d)) (ddiv rnd (Fin 1) (Fin 2)))])"
  by (simp add: StatisticsLocal_def MeanAndVarianceAccumulator_new_def as_doubles_def accumulate_def
        finish_def as_complex_def Let_def upt_conv_Cons numeral_2_eq_2 del: ddiv.simps)

lemma two_chains_two_samples:
  "StatisticsLocal rnd [(a, b), (a', b'), (c, d), (c', d')] 2
     = Inr ([(fst (kernel rnd 2 (kernel rnd 1 (Fin 0, Fin 0) a) c),
              fst (kernel rnd 2 (kernel rnd 1 (Fin 0, Fin 0) b) d)),
             (fst (kernel rnd 2 (kernel rnd 1 (Fin 0, Fin 0) a') c'),
              fst (kernel rnd 2 (kernel rnd 1 (Fin 0, Fin 0) b') d'))],
            [dadd rnd (dmul rnd (snd (kernel rnd 2 (kernel rnd 1 (Fin 0, Fin 0) a) c)) (ddiv rnd (Fin 1) (Fin 2)))
                      (dmul rnd (snd (kernel rnd 2 (kernel rnd 1 (Fin 0, Fin 0) b) d)) (ddiv rnd (Fin 1) (Fin 2))),
             dadd rnd (dmul rnd (snd (kernel rnd 2 (kernel rnd 1 (Fin 0, Fin 0) a') c')) (ddiv rnd (Fin 1) (Fin 2)))
                      (dmul rnd (snd (kernel rnd 2 (kernel rnd 1 (Fin 0, Fin 0) b') d')) (ddiv rnd (Fin 1) (Fin 2)))])"
proof -
  have u: "[0..<4] = [0, 1, 2, 3]" "[0..<2] = [0, 1]" "[0..<4 div 2] = [0, 1]"
    by (simp_all add: upt_rec)
  show ?thesis
    by (simp add: StatisticsLocal_def MeanAndVarianceAccumulator_new_def as_doubles_def accumulate_def
        finish_def as_complex_def Let_def u del: ddiv.simps)
qed


lemma overflowing_small: "\<forall>r. \<bar>r\<bar> \<le> 12 \<longrightarrow> overflowing r = Fin r"
  by (auto simp: overflowing_def overflow_threshold_def)

lemma kernel_zero:
  "kernel overflowing 2 (kernel overflowing 1 (Fin 0, Fin 0) (Fin 0)) (Fin 0) = (Fin 0, Fin 0)"
  by (simp add: kernel_def dsub_def Let_def overflowing_def overflow_threshold_def)

lemma kernel_overflow:
  "kernel overflowing 2 (kernel overflowing 1 (Fin 0, Fin 0) (Fin (2 ^ 1023))) (Fin (- (2 ^ 1023)))
     = (MInf, MInf)"
  "kernel overflowing 2 (kernel overflowing 1 (Fin 0, Fin 0) (Fin (2 ^ 520 + 2 ^ 480)))
       (Fin (2 ^ 520 - 2 ^ 480)) = (Fin (2 ^ 520), Fin (2 ^ 961))"
  "kernel overflowing 2 (kernel overflowing 1 (Fin 0, Fin 0) (Fin (- (2 ^ 520 + 2 ^ 480))))
       (Fin (- (2 ^ 520 - 2 ^ 480))) = (Fin (- (2 ^ 520)), Fin (2 ^ 961))"
  by (simp_all add: kernel_def dsub_def Let_def overflowing_def overflow_threshold_def dscale_inf_def)

lemma example_overflow_local:
  "StatisticsLocal overflowing
     (map cfin [complex_of_real (2 ^ 1023), complex_of_real (- (2 ^ 1023))]) 1
     = Inr ([(MInf, Fin 0)], [MInf])"
  "StatisticsLocal overflowing
     (map cfin [complex_of_real (2 ^ 520 + 2 ^ 480), complex_of_real (- (2 ^ 520 + 2 ^ 480)),
                complex_of_real (2 ^ 520 - 2 ^ 480), complex_of_real (- (2 ^ 520 - 2 ^ 480))]) 2
     = Inr ([(Fin (2 ^ 520), Fin 0), (Fin (- (2 ^ 520)), Fin 0)], [Fin (2 ^ 960), Fin (2 ^ 960)])"
  unfolding list.map cfin_def Re_complex_of_real Im_complex_of_real two_samples two_chains_two_samples
    kernel_overflow kernel_zero
  by (simp_all add: overflowing_def overflow_threshold_def dscale_inf_def)

text \<open>
  \<^bold>\<open>C2\<close> (as amended).  Let the total number of chains, processes times chains per
  process, be one.  On every non-empty input, whatever the rounding, \<open>Statistics\<close>
  returns a \<open>Stats\<close> value with not-a-number in the four fields other than the mean.
  In exact arithmetic the mean is the average of the finite samples; so it is in
  every arithmetic that is exact on the results of magnitude up to a bound \<open>M\<close>, for
  samples whose real and imaginary parts have magnitude at most \<open>M / 2\<close>.  The empty
  input is refused with \<open>InvalidInputError\<close>.
\<close>

theorem Statistics_single_chain:
  assumes "(1 + int (length peers)) * k = 1"
  shows "(values \<noteq> []
          \<longrightarrow> (\<exists>mu. Statistics rnd peers values k
                 = Inr \<lparr>mean = mu, error_of_mean = NaN, variance = NaN, correlation = NaN, R = NaN\<rparr>))
       \<and> (zs \<noteq> []
          \<longrightarrow> Statistics Fin peers (map cfin zs) k
              = Inr \<lparr>mean = cfin (sum_list zs / of_nat (length zs)),
                     error_of_mean = NaN, variance = NaN, correlation = NaN, R = NaN\<rparr>)
       \<and> (zs \<noteq> [] \<and> (\<forall>r. \<bar>r\<bar> \<le> M \<longrightarrow> rnd r = Fin r)
            \<and> (\<forall>z\<in>set zs. \<bar>Re z\<bar> \<le> M / 2 \<and> \<bar>Im z\<bar> \<le> M / 2)
          \<longrightarrow> Statistics rnd peers (map cfin zs) k
              = Inr \<lparr>mean = cfin (sum_list zs / of_nat (length zs)),
                     error_of_mean = NaN, variance = NaN, correlation = NaN, R = NaN\<rparr>)
       \<and> Statistics rnd peers [] k = Inl InvalidInputError"
proof (intro conjI impI)
  have "0 < 1 + int (length peers)" by simp
  from pos_zmult_eq_1_iff [OF this, of k] assms
  have k: "k = 1" and peers: "peers = []" by simp_all
  {
    assume "values \<noteq> []"
    then have "(1::int) \<le> int (length values)" by (cases "values") simp_all
    then show "\<exists>mu. Statistics rnd peers values k
                 = Inr \<lparr>mean = mu, error_of_mean = NaN, variance = NaN, correlation = NaN, R = NaN\<rparr>"
      unfolding k peers
      by (simp add: Statistics_def StatisticsLocal_def MeanAndVarianceAccumulator_new_def Let_def
          split: prod.splits)
  }
  {
    assume zs: "zs \<noteq> []"
    have "\<forall>r. \<bar>r\<bar> \<le> 2 * (\<Sum>z\<leftarrow>zs. \<bar>Re z\<bar> + \<bar>Im z\<bar>) \<longrightarrow> Fin r = Fin r"
      by simp
    moreover have "\<bar>Re z\<bar> + \<bar>Im z\<bar> \<le> (\<Sum>z\<leftarrow>zs. \<bar>Re z\<bar> + \<bar>Im z\<bar>)" if "z \<in> set zs" for z
      by (rule member_le_sum_list) (use that in auto)
    then have "\<forall>z\<in>set zs. \<bar>Re z\<bar> \<le> 2 * (\<Sum>z\<leftarrow>zs. \<bar>Re z\<bar> + \<bar>Im z\<bar>) / 2
                        \<and> \<bar>Im z\<bar> \<le> 2 * (\<Sum>z\<leftarrow>zs. \<bar>Re z\<bar> + \<bar>Im z\<bar>) / 2"
      by fastforce
    ultimately show "Statistics Fin peers (map cfin zs) k
              = Inr \<lparr>mean = cfin (sum_list zs / of_nat (length zs)),
                     error_of_mean = NaN, variance = NaN, correlation = NaN, R = NaN\<rparr>"
      unfolding k peers by (rule Statistics_single_chain_mean [OF zs])
  }
  {
    assume "zs \<noteq> [] \<and> (\<forall>r. \<bar>r\<bar> \<le> M \<longrightarrow> rnd r = Fin r)
            \<and> (\<forall>z\<in>set zs. \<bar>Re z\<bar> \<le> M / 2 \<and> \<bar>Im z\<bar> \<le> M / 2)"
    then show "Statistics rnd peers (map cfin zs) k
              = Inr \<lparr>mean = cfin (sum_list zs / of_nat (length zs)),
                     error_of_mean = NaN, variance = NaN, correlation = NaN, R = NaN\<rparr>"
      unfolding k peers using Statistics_single_chain_mean by blast
  }
  show "Statistics rnd peers [] k = Inl InvalidInputError"
    unfolding k by (simp add: Statistics_def)
qed

theorem Statistics_single_chain_witness:
  "(\<exists>mu. Statistics overflowing [] [(PInf, Fin 0), (Fin 1, NaN)] 1
      = Inr \<lparr>mean = mu, error_of_mean = NaN, variance = NaN, correlation = NaN, R = NaN\<rparr>)
   \<and> Statistics Fin [] (map cfin [1, 2, 6]) 1
      = Inr \<lparr>mean = cfin 3, error_of_mean = NaN, variance = NaN, correlation = NaN, R = NaN\<rparr>
   \<and> Statistics overflowing [] (map cfin [1, 2, 6]) 1
      = Inr \<lparr>mean = cfin 3, error_of_mean = NaN, variance = NaN, correlation = NaN, R = NaN\<rparr>
   \<and> Statistics overflowing [] [] 1 = Inl InvalidInputError"
  using Statistics_single_chain [of "[]" 1 "[(PInf, Fin 0), (Fin 1, NaN)]" overflowing "[1, 2, 6]" 12]
    overflowing_small
  by simp

text \<open>
  The statement of the specification, for every input, fails on the empty input,
  which is refused, and on finite samples whose running mean overflows: for the
  samples \<open>2\<^sup>1\<^sup>0\<^sup>2\<^sup>3\<close> and \<open>- 2\<^sup>1\<^sup>0\<^sup>2\<^sup>3\<close>, which average to zero, the difference of the second
  sample and the running mean is below the range of \<^verbatim>\<open>double\<close>, and the mean returned
  is minus infinity.
\<close>

theorem Statistics_single_chain_counterexample:
  "Statistics Fin [] [] 1 = Inl InvalidInputError
   \<and> Statistics overflowing [] (map cfin [complex_of_real (2 ^ 1023), complex_of_real (- (2 ^ 1023))]) 1
       = Inr \<lparr>mean = (MInf, Fin 0), error_of_mean = NaN, variance = NaN, correlation = NaN, R = NaN\<rparr>
   \<and> cfin (sum_list [complex_of_real (2 ^ 1023), complex_of_real (- (2 ^ 1023))] / of_nat 2) = (Fin 0, Fin 0)"
  unfolding Statistics_def example_overflow_local
  by (simp add: Let_def MPI_Allreduce_SUM_complex_def cadd_def cdiv_def cfin_def
        overflowing_def overflow_threshold_def)










lemma csum_cfin_fun [simp]: "csum Fin (map (\<lambda>p. cfin (f p)) ps) = cfin (sum_list (map f ps))"
  by (induction ps) (simp_all add: cfin_zero)

lemma dsum_Fin_fun [simp]: "dsum Fin (map (\<lambda>p. Fin (f p)) ps) = Fin (sum_list (map f ps))"
  by (induction ps) simp_all

lemma ddiv_Fin_nonzero: "b \<noteq> 0 \<Longrightarrow> ddiv Fin (Fin a) (Fin b) = Fin (a / b)"
  by simp















subsection \<open>The exchange samplers\<close>

lemma UpdateConf_pair:
  "UpdateConf v [si, sj] [x, y] = v[si := x, sj := y]"
  by (simp add: UpdateConf_def)

lemma collect_fold:
  "fold (\<lambda>j (tochange, newconf).
            if c j then (tochange @ [a j, b j], newconf @ [x j, y j]) else (tochange, newconf))
        js (t0, n0)
     = (t0 @ concat (map (\<lambda>j. if c j then [a j, b j] else []) js),
        n0 @ concat (map (\<lambda>j. if c j then [x j, y j] else []) js))"
  by (induction js arbitrary: t0 n0) simp_all

lemma swap_col_eq:
  "swap_col v L r =
     (concat (map (\<lambda>j. if dbl_epsilon < v ! (r * L + j) - v ! (((r + 1) mod L) * L + j)
                        then [r * L + j, ((r + 1) mod L) * L + j] else []) [0..<L]),
      concat (map (\<lambda>j. if dbl_epsilon < v ! (r * L + j) - v ! (((r + 1) mod L) * L + j)
                        then [v ! (((r + 1) mod L) * L + j), v ! (r * L + j)] else []) [0..<L]))"
  unfolding swap_col_def
  by (simp only: collect_fold [where c = "\<lambda>j. dbl_epsilon < v ! (r * L + j) - v ! (((r + 1) mod L) * L + j)"]
                 append_Nil)

lemma swap_row_eq:
  "swap_row v L r =
     (concat (map (\<lambda>j. if dbl_epsilon < v ! (j * L + r) - v ! (j * L + (r + 1) mod L)
                        then [j * L + r, j * L + (r + 1) mod L] else []) [0..<L]),
      concat (map (\<lambda>j. if dbl_epsilon < v ! (j * L + r) - v ! (j * L + (r + 1) mod L)
                        then [v ! (j * L + (r + 1) mod L), v ! (j * L + r)] else []) [0..<L]))"
  unfolding swap_row_def
  by (simp only: collect_fold [where c = "\<lambda>j. dbl_epsilon < v ! (j * L + r) - v ! (j * L + (r + 1) mod L)"]
                 append_Nil)

lemma UpdateConf_collected:
  "fold (\<lambda>(sf, x) w. w[sf := x])
        (zip (concat (map (\<lambda>j. if c j then [a j, b j] else []) js))
             (concat (map (\<lambda>j. if c j then [x j, y j] else []) js))) w
     = fold (\<lambda>j w. if c j then w[a j := x j, b j := y j] else w) js w"
  by (induction js arbitrary: w) simp_all

lemma swaps_mset:
  assumes "\<forall>j\<in>set js. c j \<longrightarrow> a j < length w \<and> b j < length w
                            \<and> w ! a j = v ! a j \<and> w ! b j = v ! b j"
      and "distinct js"
      and "\<forall>j\<in>set js. \<forall>j'\<in>set js. j \<noteq> j' \<longrightarrow>
              a j \<noteq> a j' \<and> a j \<noteq> b j' \<and> b j \<noteq> b j'"
  shows "mset (fold (\<lambda>j w. if c j then w[a j := v ! b j, b j := v ! a j] else w) js w) = mset w"
  using assms
proof (induction js arbitrary: w)
  case Nil
  show ?case by simp
next
  case (Cons j js)
  let ?w = "if c j then w[a j := v ! b j, b j := v ! a j] else w"
  have len: "length ?w = length w" by simp
  have w: "mset ?w = mset w"
  proof (cases "c j")
    case True
    with Cons.prems(1) have "a j < length w" "b j < length w" "w ! a j = v ! a j" "w ! b j = v ! b j"
      by simp_all
    then have "w[a j := v ! b j, b j := v ! a j] = w[a j := w ! b j, b j := w ! a j]"
      by simp
    with mset_swap [OF \<open>b j < length w\<close> \<open>a j < length w\<close>] True show ?thesis
      by simp
  next
    case False
    then show ?thesis by simp
  qed
  have "\<forall>j'\<in>set js. c j' \<longrightarrow> a j' < length ?w \<and> b j' < length ?w
                            \<and> ?w ! a j' = v ! a j' \<and> ?w ! b j' = v ! b j'"
  proof (intro ballI impI)
    fix j' assume j': "j' \<in> set js" and c: "c j'"
    with Cons.prems(2) have ne: "j \<noteq> j'" by auto
    have jj: "j \<in> set (j # js)" "j' \<in> set (j # js)"
      using j' by simp_all
    from Cons.prems(3) [rule_format, OF jj ne] Cons.prems(3) [rule_format, OF jj(2,1) ne [symmetric]]
    have d: "a j \<noteq> a j'" "a j \<noteq> b j'" "b j \<noteq> b j'" "a j' \<noteq> b j"
      by simp_all
    from Cons.prems(1) j' c have p: "a j' < length w" "b j' < length w"
         "w ! a j' = v ! a j'" "w ! b j' = v ! b j'"
      by simp_all
    show "a j' < length ?w \<and> b j' < length ?w \<and> ?w ! a j' = v ! a j' \<and> ?w ! b j' = v ! b j'"
      using p d by (simp add: nth_list_update)
  qed
  moreover have "distinct js"
    using Cons.prems(2) by simp
  moreover have "\<forall>j\<in>set js. \<forall>j'\<in>set js. j \<noteq> j' \<longrightarrow> a j \<noteq> a j' \<and> a j \<noteq> b j' \<and> b j \<noteq> b j'"
    using Cons.prems(3) by simp
  ultimately have "mset (fold (\<lambda>j w. if c j then w[a j := v ! b j, b j := v ! a j] else w) js ?w)
                     = mset ?w"
    by (rule Cons.IH)
  with w show ?case by simp
qed

lemma lattice_index_less:
  fixes r j L :: nat
  assumes "r < L" "j < L"
  shows "r * L + j < L * L"
proof -
  have "r * L + j < r * L + L" using assms(2) by simp
  also have "\<dots> = Suc r * L" by simp
  also have "\<dots> \<le> L * L" using assms(1) by (intro mult_le_mono1) simp
  finally show ?thesis .
qed

lemma lattice_index_col_inj:
  fixes r r' j j' L :: nat
  assumes "j < L" "j' < L" "r * L + j = r' * L + j'"
  shows "j = j'"
proof -
  have "(r * L + j) mod L = j" "(r' * L + j') mod L = j'"
    using assms(1,2) by simp_all
  with assms(3) show ?thesis by simp
qed

lemma lattice_index_row_inj:
  fixes r r' j j' L :: nat
  assumes "r < L" "r' < L" "j * L + r = j' * L + r'"
  shows "j = j'"
proof -
  have "(j * L + r) div L = j" "(j' * L + r') div L = j'"
    using assms(1,2) by simp_all
  with assms(3) show ?thesis by simp
qed

lemma swap_col_mset:
  assumes "L * L \<le> length v" "r < L"
  shows "mset (UpdateConf v (fst (swap_col v L r)) (snd (swap_col v L r))) = mset v"
proof -
  have r': "(r + 1) mod L < L" using assms(2) by simp
  have b: "r * L + j < length v" "((r + 1) mod L) * L + j < length v" if "j < L" for j
    using lattice_index_less [OF assms(2) that] lattice_index_less [OF r' that] assms(1)
    by simp_all
  show ?thesis
    unfolding swap_col_eq fst_conv snd_conv UpdateConf_def UpdateConf_collected
  proof (rule swaps_mset)
    show "\<forall>j\<in>set [0..<L]. dbl_epsilon < v ! (r * L + j) - v ! ((r + 1) mod L * L + j) \<longrightarrow>
             r * L + j < length v \<and> (r + 1) mod L * L + j < length v
             \<and> v ! (r * L + j) = v ! (r * L + j)
             \<and> v ! ((r + 1) mod L * L + j) = v ! ((r + 1) mod L * L + j)"
      using b by auto
    show "distinct [0..<L]" by simp
    show "\<forall>j\<in>set [0..<L]. \<forall>j'\<in>set [0..<L]. j \<noteq> j' \<longrightarrow>
             r * L + j \<noteq> r * L + j' \<and> r * L + j \<noteq> (r + 1) mod L * L + j'
             \<and> (r + 1) mod L * L + j \<noteq> (r + 1) mod L * L + j'"
      using lattice_index_col_inj [of _ L _ r "(r + 1) mod L"] by auto
  qed
qed

lemma swap_row_mset:
  assumes "L * L \<le> length v" "r < L"
  shows "mset (UpdateConf v (fst (swap_row v L r)) (snd (swap_row v L r))) = mset v"
proof -
  have r': "(r + 1) mod L < L" using assms(2) by simp
  have b: "j * L + r < length v" "j * L + (r + 1) mod L < length v" if "j < L" for j
    using lattice_index_less [OF that assms(2)] lattice_index_less [OF that r'] assms(1)
    by simp_all
  show ?thesis
    unfolding swap_row_eq fst_conv snd_conv UpdateConf_def UpdateConf_collected
  proof (rule swaps_mset)
    show "\<forall>j\<in>set [0..<L]. dbl_epsilon < v ! (j * L + r) - v ! (j * L + (r + 1) mod L) \<longrightarrow>
             j * L + r < length v \<and> j * L + (r + 1) mod L < length v
             \<and> v ! (j * L + r) = v ! (j * L + r)
             \<and> v ! (j * L + (r + 1) mod L) = v ! (j * L + (r + 1) mod L)"
      using b by auto
    show "distinct [0..<L]" by simp
    show "\<forall>j\<in>set [0..<L]. \<forall>j'\<in>set [0..<L]. j \<noteq> j' \<longrightarrow>
             j * L + r \<noteq> j' * L + r \<and> j * L + r \<noteq> j' * L + (r + 1) mod L
             \<and> j * L + (r + 1) mod L \<noteq> j' * L + (r + 1) mod L"
      using lattice_index_row_inj [OF assms(2) r'] assms(2) r' by auto
  qed
qed

lemma swap_empty_lattice:
  "swap_col v 0 r = ([], [])" "swap_row v 0 r = ([], [])"
  by (simp_all add: swap_col_def swap_row_def)

lemma GenerateClusters_pairs:
  assumes "c \<in> set (GenerateClusters distances nv dmax)"
  shows "\<exists>i j. c = [i, j] \<and> i < nv \<and> j < nv \<and> i \<noteq> j"
  using assms by (auto simp: GenerateClusters_def split: if_splits)

lemma metropolis_test_invariant:
  assumes "mset (UpdateConf (mg_v st) tochange newconf) = mset (mg_v st)"
  shows "mg_nv (metropolis_test env st tochange newconf kind g) = mg_nv st
       \<and> mg_L (metropolis_test env st tochange newconf kind g) = mg_L st
       \<and> mg_clusters (metropolis_test env st tochange newconf kind g) = mg_clusters st
       \<and> mset (mg_v (metropolis_test env st tochange newconf kind g)) = mset (mg_v st)"
  using assms by (simp add: metropolis_test_def Let_def split_beta)

lemma Sweep_iteration_invariant:
  assumes contract: "\<forall>b g. 0 \<le> b \<longrightarrow> fst (distint env b g) \<le> nat b"
      and ne: "mg_clusters st \<noteq> []"
      and pairs: "\<forall>c\<in>set (mg_clusters st). \<exists>i j. c = [i, j] \<and> i < mg_nv st \<and> j < mg_nv st"
      and len: "length (mg_v st) = mg_nv st"
      and L: "mg_L st * mg_L st \<le> mg_nv st"
  shows "\<exists>st'. Sweep_iteration env st = Inr st'
            \<and> mg_nv st' = mg_nv st \<and> mg_L st' = mg_L st \<and> mg_clusters st' = mg_clusters st
            \<and> mset (mg_v st') = mset (mg_v st)"
proof -
  obtain u g where d0: "distu env (mg_rgen st) = (u, g)"
    by (cases "distu env (mg_rgen st)")
  show ?thesis
  proof (cases "2 / 10 < u")
    case True
    obtain rcl g1 where d1: "distint env (int (length (mg_clusters st)) - 1) g = (rcl, g1)"
      by (cases "distint env (int (length (mg_clusters st)) - 1) g")
    have "0 \<le> int (length (mg_clusters st)) - 1"
      using ne by (cases "mg_clusters st") simp_all
    with contract d1 have "rcl \<le> nat (int (length (mg_clusters st)) - 1)"
      by (metis fst_conv)
    with ne have rcl: "rcl < length (mg_clusters st)"
      by (cases "mg_clusters st") simp_all
    then have "mg_clusters st ! rcl \<in> set (mg_clusters st)"
      by simp
    with pairs obtain si sj where c: "mg_clusters st ! rcl = [si, sj]"
        and s: "si < mg_nv st" "sj < mg_nv st"
      by blast
    have sw: "mset (UpdateConf (mg_v st) [si, sj] [mg_v st ! sj, mg_v st ! si]) = mset (mg_v st)"
      unfolding UpdateConf_pair using s len by (simp add: mset_swap)
    note inv = metropolis_test_invariant [OF sw, of env 0 g1]
    show ?thesis
      using True rcl s inv
      by (simp add: Sweep_iteration_def d0 d1 c Let_def)
  next
    case False
    obtain r g1 where d1: "distint env (int (mg_L st) - 1) g = (r, g1)"
      by (cases "distint env (int (mg_L st) - 1) g")
    obtain u2 g2 where d2: "distu env g1 = (u2, g2)"
      by (cases "distu env g1")
    have L': "mg_L st * mg_L st \<le> length (mg_v st)"
      using L len by simp
    obtain tochange newconf where
      t: "(if 5 / 10 < u2 then swap_col (mg_v st) (mg_L st) r
           else swap_row (mg_v st) (mg_L st) r) = (tochange, newconf)"
      by (cases "if 5 / 10 < u2 then swap_col (mg_v st) (mg_L st) r
                 else swap_row (mg_v st) (mg_L st) r")
    have sw: "mset (UpdateConf (mg_v st) tochange newconf) = mset (mg_v st)"
    proof (cases "mg_L st = 0")
      case True
      with t have "tochange = []"
        by (auto simp: swap_empty_lattice split: if_splits)
      then show ?thesis
        by (simp add: UpdateConf_def)
    next
      case L0: False
      then have "0 \<le> int (mg_L st) - 1" by simp
      with contract d1 have "r \<le> nat (int (mg_L st) - 1)"
        by (metis fst_conv)
      with L0 have r: "r < mg_L st" by simp
      show ?thesis
        using swap_col_mset [OF L' r] swap_row_mset [OF L' r] t
        by (auto split: if_splits)
    qed
    note inv = metropolis_test_invariant [OF sw, of env 1 g2]
    show ?thesis
      using False L' inv t
      by (auto simp: Sweep_iteration_def d0 d1 d2 Let_def split: if_splits)
  qed
qed

lemma Sweep_loop_invariant:
  assumes contract: "\<forall>b g. 0 \<le> b \<longrightarrow> fst (distint env b g) \<le> nat b"
      and ne: "mg_clusters st \<noteq> []"
      and pairs: "\<forall>c\<in>set (mg_clusters st). \<exists>i j. c = [i, j] \<and> i < mg_nv st \<and> j < mg_nv st"
      and len: "length (mg_v st) = mg_nv st"
      and L: "mg_L st * mg_L st \<le> mg_nv st"
  shows "\<exists>st'. Sweep_loop env i st = Inr st'
            \<and> mg_nv st' = mg_nv st \<and> mg_L st' = mg_L st \<and> mg_clusters st' = mg_clusters st
            \<and> mset (mg_v st') = mset (mg_v st)"
  using ne pairs len L
proof (induction i arbitrary: st)
  case 0
  show ?case by simp
next
  case (Suc i)
  from Sweep_iteration_invariant [OF contract Suc.prems]
  obtain st1 where st1: "Sweep_iteration env st = Inr st1"
      "mg_nv st1 = mg_nv st" "mg_L st1 = mg_L st" "mg_clusters st1 = mg_clusters st"
      "mset (mg_v st1) = mset (mg_v st)"
    by blast
  have "length (mg_v st1) = mg_nv st1"
    using st1(2,5) Suc.prems(3) by (metis size_mset)
  with Suc.prems st1 have
    "\<exists>st'. Sweep_loop env i st1 = Inr st'
            \<and> mg_nv st' = mg_nv st1 \<and> mg_L st' = mg_L st1 \<and> mg_clusters st' = mg_clusters st1
            \<and> mset (mg_v st') = mset (mg_v st1)"
    by (intro Suc.IH) simp_all
  with st1 show ?case
    by auto
qed

lemma lattice_length_square: "lattice_length (s * s) = s"
proof -
  have "sqrt (real (s * s)) = real s"
    by simp
  moreover have "\<lfloor>real s + 1 / 2\<rfloor> = int s"
    by linarith
  ultimately show ?thesis
    by (simp add: lattice_length_def)
qed

lemma ExchangeKernel_rows_mset:
  assumes contract: "\<forall>b g. 0 \<le> b \<longrightarrow> fst (distint env b g) \<le> nat b"
      and ne: "clusters \<noteq> []"
      and pairs: "\<forall>c\<in>set clusters. \<exists>i j. c = [i, j] \<and> i < nv \<and> j < nv"
      and rows: "\<forall>row\<in>set v. length row = nv"
  shows "\<exists>vnew g'. ExchangeKernel_rows env nv clusters v g = Inr (vnew, g')
            \<and> map mset vnew = map mset v"
  using rows
proof (induction v arbitrary: g)
  case Nil
  show ?case by simp
next
  case (Cons row rows)
  obtain rcl g1 where d1: "distint env (int (length clusters) - 1) g = (rcl, g1)"
    by (cases "distint env (int (length clusters) - 1) g")
  have "0 \<le> int (length clusters) - 1"
    using ne by (cases clusters) simp_all
  with contract d1 have "rcl \<le> nat (int (length clusters) - 1)"
    by (metis fst_conv)
  with ne have rcl: "rcl < length clusters"
    by (cases clusters) simp_all
  then have "clusters ! rcl \<in> set clusters"
    by simp
  with pairs obtain si sj where c: "clusters ! rcl = [si, sj]" and s: "si < nv" "sj < nv"
    by blast
  from Cons.prems have "\<forall>row\<in>set rows. length row = nv" and len: "length row = nv"
    by simp_all
  from Cons.IH [OF this(1), of g1]
  obtain rows' g' where r: "ExchangeKernel_rows env nv clusters rows g1 = Inr (rows', g')"
      "map mset rows' = map mset rows"
    by blast
  have "mset (row[si := row ! sj, sj := row ! si]) = mset row"
    using s len by (simp add: mset_swap)
  then show ?case
    using rcl s r by (simp add: d1 c)
qed

text \<open>
  \<^bold>\<open>C10\<close> (as amended).  Let the integer distribution respect its bounds and let the
  clusters be those \<open>GenerateClusters\<close> builds, at least one.  Let the side length \<open>L\<close>
  the constructor computes span no more than the \<open>nv\<close> sites, \<open>L * L \<le> nv\<close>, as it does
  on every square lattice (\<open>lattice_length (s * s) = s\<close>).  Then a \<open>Sweep\<close> of the global
  sampler returns a state whose configuration has the same multiset of local values,
  hence also the same total.  \<open>ExchangeKernel\<close> returns configurations each of which
  has the multiset of local values of the configuration it was proposed from.
\<close>

theorem exchange_moves_preserve_multiset:
  assumes contract: "\<forall>b g. 0 \<le> b \<longrightarrow> fst (distint env b g) \<le> nat b"
      and clusters: "clusters = GenerateClusters distances nv dmax" "clusters \<noteq> []"
  shows "(mg_nv st = nv \<and> mg_clusters st = clusters \<and> length (mg_v st) = nv
            \<and> mg_L st = lattice_length nv \<and> lattice_length nv * lattice_length nv \<le> nv
          \<longrightarrow> (\<exists>st'. Sweep env st = Inr st' \<and> mset (mg_v st') = mset (mg_v st)
                      \<and> sum_list (mg_v st') = sum_list (mg_v st)))
       \<and> ((\<forall>row\<in>set v. length row = nv)
          \<longrightarrow> (\<exists>vnew la g'. ExchangeKernel env nv clusters v g = Inr (vnew, la, g')
                      \<and> map mset vnew = map mset v))"
proof (intro conjI impI)
  have pairs: "\<forall>c\<in>set clusters. \<exists>i j. c = [i, j] \<and> i < nv \<and> j < nv"
    unfolding clusters(1) using GenerateClusters_pairs by blast
  {
    assume a: "mg_nv st = nv \<and> mg_clusters st = clusters \<and> length (mg_v st) = nv
            \<and> mg_L st = lattice_length nv \<and> lattice_length nv * lattice_length nv \<le> nv"
    then have L: "mg_L st * mg_L st \<le> mg_nv st"
      by simp
    from a clusters(2) pairs have
      "mg_clusters st \<noteq> []"
      "\<forall>c\<in>set (mg_clusters st). \<exists>i j. c = [i, j] \<and> i < mg_nv st \<and> j < mg_nv st"
      "length (mg_v st) = mg_nv st"
      by simp_all
    from Sweep_loop_invariant [OF contract this L, of "mg_nv st"]
    obtain st' where st': "Sweep env st = Inr st'" "mset (mg_v st') = mset (mg_v st)"
      unfolding Sweep_def by blast
    from st'(2) have "sum_list (mg_v st') = sum_list (mg_v st)"
      by (metis sum_mset_sum_list)
    with st' show "\<exists>st'. Sweep env st = Inr st' \<and> mset (mg_v st') = mset (mg_v st)
                      \<and> sum_list (mg_v st') = sum_list (mg_v st)"
      by blast
  }
  {
    assume "\<forall>row\<in>set v. length row = nv"
    from ExchangeKernel_rows_mset [OF contract clusters(2) pairs this, of g]
    show "\<exists>vnew la g'. ExchangeKernel env nv clusters v g = Inr (vnew, la, g')
                      \<and> map mset vnew = map mset v"
      by (auto simp: ExchangeKernel_def)
  }
qed

lemma example_clusters:
  "GenerateClusters [[0, 1, 1, 2], [1, 0, 2, 1], [1, 2, 0, 1], [2, 1, 1, 0]] 4 1
     = [[0, 1], [0, 2], [1, 0], [1, 3], [2, 0], [2, 3], [3, 1], [3, 2]]"
  by code_simp

lemma example_lattice_length: "lattice_length 4 = 2"
  using lattice_length_square [of 2] by simp

theorem exchange_moves_preserve_multiset_witness:
  "(\<exists>st'. Sweep \<lparr>LogValDiff = (\<lambda>v tochange newconf lt. 0), UpdateLookup = (\<lambda>v tochange newconf lt. lt),
                  distu = (\<lambda>g. (real (g mod 4) / 4, Suc g)),
                  distint = (\<lambda>b g. (g mod (nat b + 1), Suc g))\<rparr>
            \<lparr>mg_nv = 4, mg_L = lattice_length 4, mg_rgen = (0::nat), mg_v = [1, - 1, - 1, 1],
             mg_accept = [0, 0], mg_moves = [0, 0],
             mg_clusters = [[0, 1], [0, 2], [1, 0], [1, 3], [2, 0], [2, 3], [3, 1], [3, 2]],
             mg_lt = ()\<rparr> = Inr st'
          \<and> mset (mg_v st') = mset [1, - 1, - 1, 1] \<and> sum_list (mg_v st') = 0)
   \<and> (\<exists>vnew la g'. ExchangeKernel \<lparr>LogValDiff = (\<lambda>v tochange newconf lt. 0),
                  UpdateLookup = (\<lambda>v tochange newconf (lt::unit). lt),
                  distu = (\<lambda>g. (real (g mod 4) / 4, Suc g)),
                  distint = (\<lambda>b g. (g mod (nat b + 1), Suc g))\<rparr> 4
            [[0, 1], [0, 2], [1, 0], [1, 3], [2, 0], [2, 3], [3, 1], [3, 2]]
            [[1, - 1, - 1, 1], [1, 1, - 1, - 1]] (0::nat) = Inr (vnew, la, g')
          \<and> map mset vnew = [mset [1, - 1, - 1, 1], mset [1, 1, - 1, - 1]])"
  using exchange_moves_preserve_multiset
    [of "\<lparr>LogValDiff = (\<lambda>v tochange newconf lt. 0), UpdateLookup = (\<lambda>v tochange newconf lt. lt),
          distu = (\<lambda>g. (real (g mod 4) / 4, Suc g)),
          distint = (\<lambda>b g. (g mod (nat b + 1), Suc g))\<rparr>"
        "[[0, 1], [0, 2], [1, 0], [1, 3], [2, 0], [2, 3], [3, 1], [3, 2]]"
        "[[0, 1, 1, 2], [1, 0, 2, 1], [1, 2, 0, 1], [2, 1, 1, 0]]" 4 1
        "\<lparr>mg_nv = 4, mg_L = lattice_length 4, mg_rgen = (0::nat), mg_v = [1, - 1, - 1, 1],
             mg_accept = [0, 0], mg_moves = [0, 0],
             mg_clusters = [[0, 1], [0, 2], [1, 0], [1, 3], [2, 0], [2, 3], [3, 1], [3, 2]],
             mg_lt = ()\<rparr>" "[[1, - 1, - 1, 1], [1, 1, - 1, - 1]]" 0]
  by (simp add: example_clusters example_lattice_length)


lemma example_lattice_length_chain: "lattice_length 3 = 2"
proof -
  have "3 / 2 \<le> sqrt 3"
    by (rule real_le_rsqrt) (simp add: power_divide)
  moreover have "sqrt 3 < 5 / 2"
    by (rule real_less_lsqrt) (simp_all add: power_divide)
  ultimately have "\<lfloor>sqrt 3 + 1 / 2\<rfloor> = 2"
    by (intro floor_unique) simp_all
  then show ?thesis
    by (simp add: lattice_length_def)
qed

lemma example_no_clusters: "GenerateClusters [[0, 1, 1, 2], [1, 0, 2, 1], [1, 2, 0, 1], [2, 1, 1, 0]] 4 0 = []"
  by code_simp

lemma example_chain_clusters: "GenerateClusters [[0, 1, 2], [1, 0, 1], [2, 1, 0]] 3 1 = [[0, 1], [1, 0], [1, 2], [2, 1]]"
  by code_simp

lemma example_iteration_chain:
  "Sweep_iteration \<lparr>LogValDiff = (\<lambda>v tochange newconf lt. 0), UpdateLookup = (\<lambda>v tochange newconf lt. lt),
                  distu = (\<lambda>g. (real (g mod 4) / 4, Suc g)),
                  distint = (\<lambda>b g. (g mod (nat b + 1), Suc g))\<rparr>
            \<lparr>mg_nv = 3, mg_L = 2, mg_rgen = (0::nat), mg_v = [1, - 1, 1],
             mg_accept = [0, 0], mg_moves = [0, 0],
             mg_clusters = [[0, 1], [1, 0], [1, 2], [2, 1]],
             mg_lt = ()\<rparr> = Inl OutOfBounds"
  by (simp add: Sweep_iteration_def)

lemma example_iteration_no_cluster:
  "Sweep_iteration \<lparr>LogValDiff = (\<lambda>v tochange newconf lt. 0), UpdateLookup = (\<lambda>v tochange newconf lt. lt),
                  distu = (\<lambda>g. (real (g mod 4) / 4, Suc g)),
                  distint = (\<lambda>b g. (g mod (nat b + 1), Suc g))\<rparr>
            \<lparr>mg_nv = 4, mg_L = 2, mg_rgen = (1::nat), mg_v = [1, - 1, - 1, 1],
             mg_accept = [0, 0], mg_moves = [0, 0],
             mg_clusters = [],
             mg_lt = ()\<rparr> = Inl AssertionFailed"
  by (simp add: Sweep_iteration_def)

lemma Sweep_first_iteration_fails: "Sweep_iteration env st = Inl e \<Longrightarrow> 0 < mg_nv st \<Longrightarrow> Sweep env st = Inl e"
  by (cases "mg_nv st") (simp_all add: Sweep_def)

text \<open>
  The statement of the specification, for every sweep, fails where the sampler is
  built on a graph it is not made for.

  \<^item> On a chain of three sites the side length is \<open>int (sqrt 3 + 0.5) = 2\<close>, and the
    \<open>2 \<times> 2\<close> view of the row and column moves reaches beyond the three values of the
    configuration: the first iteration that draws such a move reads past the
    configuration.

  \<^item> With no pair of sites within the maximal distance there is no cluster, and the
    first iteration that draws a cluster move fails the assertion on the cluster
    index.
\<close>

theorem Sweep_preconditions_counterexample:
  "lattice_length 3 = 2
   \<and> Sweep \<lparr>LogValDiff = (\<lambda>v tochange newconf lt. 0), UpdateLookup = (\<lambda>v tochange newconf lt. lt),
                  distu = (\<lambda>g. (real (g mod 4) / 4, Suc g)),
                  distint = (\<lambda>b g. (g mod (nat b + 1), Suc g))\<rparr>
            \<lparr>mg_nv = 3, mg_L = lattice_length 3, mg_rgen = (0::nat), mg_v = [1, - 1, 1],
             mg_accept = [0, 0], mg_moves = [0, 0],
             mg_clusters = GenerateClusters [[0, 1, 2], [1, 0, 1], [2, 1, 0]] 3 1,
             mg_lt = ()\<rparr> = Inl OutOfBounds
   \<and> Sweep \<lparr>LogValDiff = (\<lambda>v tochange newconf lt. 0), UpdateLookup = (\<lambda>v tochange newconf lt. lt),
                  distu = (\<lambda>g. (real (g mod 4) / 4, Suc g)),
                  distint = (\<lambda>b g. (g mod (nat b + 1), Suc g))\<rparr>
            \<lparr>mg_nv = 4, mg_L = lattice_length 4, mg_rgen = (1::nat), mg_v = [1, - 1, - 1, 1],
             mg_accept = [0, 0], mg_moves = [0, 0],
             mg_clusters = GenerateClusters [[0, 1, 1, 2], [1, 0, 2, 1], [1, 2, 0, 1], [2, 1, 1, 0]] 4 0,
             mg_lt = ()\<rparr> = Inl AssertionFailed"
  unfolding example_lattice_length_chain example_lattice_length example_no_clusters example_chain_clusters
  by (intro conjI Sweep_first_iteration_fails example_iteration_chain example_iteration_no_cluster refl)
     simp_all


text \<open>
  \<^bold>\<open>C8\<close>.  In an iteration of \<open>Sweep\<close> that proposes a move, the exchange of two sites
  of a cluster whose values differ, or a non-empty swap of neighbouring columns or
  rows, the move is accepted exactly when the draw \<open>u\<close> made after the proposal is
  below \<open>|exp (LogValDiff v tochange newconf lt)|\<^sup>2\<close>: then the configuration becomes the
  proposed one, the lookup tables are updated and the acceptance counter of the kind
  of move is incremented; otherwise all three stay as they are.  The ratio comes from
  \<open>LogValDiff\<close> applied to the current configuration, the proposed changes and the
  lookup tables; the machine offers the sampler no other way to an amplitude.  For a
  draw \<open>u\<close> in \<open>[0, 1)\<close> the test holds exactly when \<open>u < min 1 ratio\<close>: the draws that
  accept form the interval \<open>[0, min 1 ratio)\<close>.
\<close>

theorem Sweep_acceptance_rule:
  "(distu env (mg_rgen st) = (u0, g0) \<and> 2 / 10 < u0
      \<and> distint env (int (length (mg_clusters st)) - 1) g0 = (rcl, g1)
      \<and> rcl < length (mg_clusters st) \<and> mg_clusters st ! rcl = [si, sj]
      \<and> si < mg_nv st \<and> sj < mg_nv st
      \<and> dbl_epsilon < \<bar>mg_v st ! si - mg_v st ! sj\<bar>
      \<and> distu env g1 = (u, g2)
    \<longrightarrow> (\<exists>st'. Sweep_iteration env st = Inr st'
          \<and> (let newconf = [mg_v st ! sj, mg_v st ! si];
                  ratio = (cmod (exp (LogValDiff env (mg_v st) [si, sj] newconf (mg_lt st))))\<^sup>2
              in mg_v st' = (if u < ratio then UpdateConf (mg_v st) [si, sj] newconf else mg_v st)
               \<and> mg_lt st' = (if u < ratio then UpdateLookup env (mg_v st) [si, sj] newconf (mg_lt st)
                               else mg_lt st)
               \<and> mg_accept st' = (if u < ratio then (mg_accept st)[0 := mg_accept st ! 0 + 1]
                                   else mg_accept st))))
   \<and> (distu env (mg_rgen st) = (u0, g0) \<and> \<not> 2 / 10 < u0
      \<and> mg_L st * mg_L st \<le> length (mg_v st)
      \<and> distint env (int (mg_L st) - 1) g0 = (r, g1)
      \<and> distu env g1 = (u1, g2)
      \<and> (if 5 / 10 < u1 then swap_col (mg_v st) (mg_L st) r
          else swap_row (mg_v st) (mg_L st) r) = (tochange, newconf)
      \<and> tochange \<noteq> []
      \<and> distu env g2 = (u, g3)
    \<longrightarrow> (\<exists>st'. Sweep_iteration env st = Inr st'
          \<and> (let ratio = (cmod (exp (LogValDiff env (mg_v st) tochange newconf (mg_lt st))))\<^sup>2
              in mg_v st' = (if u < ratio then UpdateConf (mg_v st) tochange newconf else mg_v st)
               \<and> mg_lt st' = (if u < ratio then UpdateLookup env (mg_v st) tochange newconf (mg_lt st)
                               else mg_lt st)
               \<and> mg_accept st' = (if u < ratio then (mg_accept st)[1 := mg_accept st ! 1 + 1]
                                   else mg_accept st))))
   \<and> (0 \<le> u \<and> u < 1 \<longrightarrow> (u < (cmod (exp z))\<^sup>2 \<longleftrightarrow> u < min 1 ((cmod (exp z))\<^sup>2)))"
proof (intro conjI impI)
  assume a: "distu env (mg_rgen st) = (u0, g0) \<and> 2 / 10 < u0
      \<and> distint env (int (length (mg_clusters st)) - 1) g0 = (rcl, g1)
      \<and> rcl < length (mg_clusters st) \<and> mg_clusters st ! rcl = [si, sj]
      \<and> si < mg_nv st \<and> sj < mg_nv st
      \<and> dbl_epsilon < \<bar>mg_v st ! si - mg_v st ! sj\<bar>
      \<and> distu env g1 = (u, g2)"
  then show "\<exists>st'. Sweep_iteration env st = Inr st'
          \<and> (let newconf = [mg_v st ! sj, mg_v st ! si];
                  ratio = (cmod (exp (LogValDiff env (mg_v st) [si, sj] newconf (mg_lt st))))\<^sup>2
              in mg_v st' = (if u < ratio then UpdateConf (mg_v st) [si, sj] newconf else mg_v st)
               \<and> mg_lt st' = (if u < ratio then UpdateLookup env (mg_v st) [si, sj] newconf (mg_lt st)
                               else mg_lt st)
               \<and> mg_accept st' = (if u < ratio then (mg_accept st)[0 := mg_accept st ! 0 + 1]
                                   else mg_accept st))"
    by (simp add: Sweep_iteration_def metropolis_test_def Let_def)
next
  assume a: "distu env (mg_rgen st) = (u0, g0) \<and> \<not> 2 / 10 < u0
      \<and> mg_L st * mg_L st \<le> length (mg_v st)
      \<and> distint env (int (mg_L st) - 1) g0 = (r, g1)
      \<and> distu env g1 = (u1, g2)
      \<and> (if 5 / 10 < u1 then swap_col (mg_v st) (mg_L st) r
          else swap_row (mg_v st) (mg_L st) r) = (tochange, newconf)
      \<and> tochange \<noteq> []
      \<and> distu env g2 = (u, g3)"
  then show "\<exists>st'. Sweep_iteration env st = Inr st'
          \<and> (let ratio = (cmod (exp (LogValDiff env (mg_v st) tochange newconf (mg_lt st))))\<^sup>2
              in mg_v st' = (if u < ratio then UpdateConf (mg_v st) tochange newconf else mg_v st)
               \<and> mg_lt st' = (if u < ratio then UpdateLookup env (mg_v st) tochange newconf (mg_lt st)
                               else mg_lt st)
               \<and> mg_accept st' = (if u < ratio then (mg_accept st)[1 := mg_accept st ! 1 + 1]
                                   else mg_accept st))"
    by (auto simp: Sweep_iteration_def metropolis_test_def Let_def split: if_splits)
next
  assume "0 \<le> u \<and> u < 1"
  then show "u < (cmod (exp z))\<^sup>2 \<longleftrightarrow> u < min 1 ((cmod (exp z))\<^sup>2)"
    by auto
qed

lemma example_swap_row: "swap_row [1, - 1, - 1, 1] 2 (Suc 0) = ([3, 2], [- 1, 1])"
  by (simp add: swap_row_def dbl_epsilon_def upt_conv_Cons)

theorem Sweep_acceptance_rule_witness:
  "(\<exists>st'. Sweep_iteration
             \<lparr>LogValDiff = (\<lambda>v tochange newconf lt. 0), UpdateLookup = (\<lambda>v tochange newconf lt. lt),
              distu = (\<lambda>g. (real (g mod 4) / 4, Suc g)),
              distint = (\<lambda>b g. (g mod (nat b + 1), Suc g))\<rparr>
             \<lparr>mg_nv = 4, mg_L = 2, mg_rgen = (1::nat), mg_v = [1, - 1, - 1, 1],
              mg_accept = [0, 0], mg_moves = [0, 0],
              mg_clusters = [[0, 1], [0, 2], [1, 0], [1, 3], [2, 0], [2, 3], [3, 1], [3, 2]],
              mg_lt = ()\<rparr> = Inr st'
          \<and> mg_v st' = [- 1, 1, - 1, 1] \<and> mg_accept st' = [1, 0])
   \<and> (\<exists>st'. Sweep_iteration
             \<lparr>LogValDiff = (\<lambda>v tochange newconf lt. 0), UpdateLookup = (\<lambda>v tochange newconf lt. lt),
              distu = (\<lambda>g. (real (g mod 4) / 4, Suc g)),
              distint = (\<lambda>b g. (g mod (nat b + 1), Suc g))\<rparr>
             \<lparr>mg_nv = 4, mg_L = 2, mg_rgen = (0::nat), mg_v = [1, - 1, - 1, 1],
              mg_accept = [0, 0], mg_moves = [0, 0],
              mg_clusters = [[0, 1], [0, 2], [1, 0], [1, 3], [2, 0], [2, 3], [3, 1], [3, 2]],
              mg_lt = ()\<rparr> = Inr st'
          \<and> mg_v st' = [1, - 1, 1, - 1] \<and> mg_accept st' = [0, 1])
   \<and> (3 / 4 :: real) < min 1 ((cmod (exp 0))\<^sup>2)"
  using Sweep_acceptance_rule
    [where env = "\<lparr>LogValDiff = (\<lambda>v tochange newconf lt. 0), UpdateLookup = (\<lambda>v tochange newconf lt. lt),
                   distu = (\<lambda>g. (real (g mod 4) / 4, Suc g)),
                   distint = (\<lambda>b g. (g mod (nat b + 1), Suc g))\<rparr>"
       and st = "\<lparr>mg_nv = 4, mg_L = 2, mg_rgen = (1::nat), mg_v = [1, - 1, - 1, 1],
              mg_accept = [0, 0], mg_moves = [0, 0],
              mg_clusters = [[0, 1], [0, 2], [1, 0], [1, 3], [2, 0], [2, 3], [3, 1], [3, 2]],
              mg_lt = ()\<rparr>"
       and ?u0.0 = "1 / 4" and ?g0.0 = 2 and rcl = 2 and ?g1.0 = 3 and si = 1 and sj = 0
       and u = "3 / 4" and ?g2.0 = 4 and z = 0]
    Sweep_acceptance_rule
    [where env = "\<lparr>LogValDiff = (\<lambda>v tochange newconf lt. 0), UpdateLookup = (\<lambda>v tochange newconf lt. lt),
                   distu = (\<lambda>g. (real (g mod 4) / 4, Suc g)),
                   distint = (\<lambda>b g. (g mod (nat b + 1), Suc g))\<rparr>"
       and st = "\<lparr>mg_nv = 4, mg_L = 2, mg_rgen = (0::nat), mg_v = [1, - 1, - 1, 1],
              mg_accept = [0, 0], mg_moves = [0, 0],
              mg_clusters = [[0, 1], [0, 2], [1, 0], [1, 3], [2, 0], [2, 3], [3, 1], [3, 2]],
              mg_lt = ()\<rparr>"
       and ?u0.0 = 0 and ?g0.0 = 1 and r = 1 and ?g1.0 = 2 and ?u1.0 = "2 / 4" and ?g2.0 = 3
       and tochange = "[3, 2]" and newconf = "[- 1, 1]" and u = "3 / 4" and ?g3.0 = 4 and z = 0]
  by (simp add: example_swap_row dbl_epsilon_def UpdateConf_def)

subsection \<open>The exact variational driver\<close>

lemma Init_nsamples_node:
  assumes "Init env st N d di mth ds it uc sn = Inr st'"
  shows "nsamples_node st' = \<lceil>real_of_int N / real_of_int (comm_size env)\<rceil>"
  using assms
  by (auto simp: Init_def Let_def split: if_splits option.splits)

lemma VariationalExact_Init_nsamples_node:
  assumes "VariationalExact_Init np P pars vst = Inr vst'"
  shows "\<exists>N. Nsamples pars = Some N \<and> ve_nsamples_node vst' = \<lceil>real_of_int N / real_of_int P\<rceil>"
  using assms
  by (auto simp: VariationalExact_Init_def FieldVal_def setSrParameters_def Let_def
           split: if_splits option.splits)

text \<open>
  \<^bold>\<open>C9\<close>.  With \<open>P > 0\<close> processes and \<open>N\<close> samples configured, both drivers set the
  quota of a process to the ceiling of \<open>N / P\<close>: the least \<open>q\<close> with \<open>N \<le> P q\<close>, which is
  \<open>(N + P - 1) div P\<close>.
\<close>

theorem per_process_quota:
  assumes "0 < P"
  shows "(Init env st N d di mth ds it uc sn = Inr st' \<and> comm_size env = P
            \<longrightarrow> nsamples_node st' = (N + P - 1) div P
              \<and> real_of_int (nsamples_node st') = of_int \<lceil>real_of_int N / real_of_int P\<rceil>
              \<and> P * (nsamples_node st' - 1) < N \<and> N \<le> P * nsamples_node st')
       \<and> (VariationalExact_Init np P pars vst = Inr vst' \<and> Nsamples pars = Some N
            \<longrightarrow> ve_nsamples_node vst' = (N + P - 1) div P
              \<and> real_of_int (ve_nsamples_node vst') = of_int \<lceil>real_of_int N / real_of_int P\<rceil>
              \<and> P * (ve_nsamples_node vst' - 1) < N \<and> N \<le> P * ve_nsamples_node vst')"
proof (intro conjI impI)
  note c = ceiling_divide_int [OF assms, of N]
  note b = ceiling_div_bounds [OF assms, of N]
  {
    assume "Init env st N d di mth ds it uc sn = Inr st' \<and> comm_size env = P"
    with Init_nsamples_node [of env st N d di mth ds it uc sn st']
    have q: "nsamples_node st' = \<lceil>real_of_int N / real_of_int P\<rceil>"
      by simp
    then show "nsamples_node st' = (N + P - 1) div P"
      and "real_of_int (nsamples_node st') = of_int \<lceil>real_of_int N / real_of_int P\<rceil>"
      and "P * (nsamples_node st' - 1) < N" and "N \<le> P * nsamples_node st'"
      using b by (simp_all add: c)
  }
  {
    assume "VariationalExact_Init np P pars vst = Inr vst' \<and> Nsamples pars = Some N"
    with VariationalExact_Init_nsamples_node [of np P pars vst vst']
    have q: "ve_nsamples_node vst' = \<lceil>real_of_int N / real_of_int P\<rceil>"
      by auto
    then show "ve_nsamples_node vst' = (N + P - 1) div P"
      and "real_of_int (ve_nsamples_node vst') = of_int \<lceil>real_of_int N / real_of_int P\<rceil>"
      and "P * (ve_nsamples_node vst' - 1) < N" and "N \<le> P * ve_nsamples_node vst'"
      using b by (simp_all add: c)
  }
qed

theorem per_process_quota_witness:
  "(\<exists>st'. VariationalMonteCarlo_new
        \<lparr>Npar = 2, IsHolomorphic = True, comm_size = 3,
         SolverFromString = (\<lambda>s. if s = ''LLT'' then Some (0::nat) else None)\<rparr>
        1000 (- 1) 0 ''energy'' ''Gd'' (1 / 100) False None ''LLT'' = Inr st'
      \<and> nsamples_node st' = 334)
   \<and> (\<exists>vst'. VariationalExact_Init 2 3
        \<lparr>Nsamples = Some 1000, DiscardedSamplesOnInit = None, DiscardedSamples = None,
         NiterOpt = Some 10, Method = Some ''SrExact'', DiagShift = None, RescaleShift = None,
         UseIterative = None, UseCholesky = None\<rparr>
        \<lparr>ve_npar = 0, ve_totalnodes = 0, ve_nsamples = 0, ve_nsamples_node = 0,
         ve_ninitsamples = 0, ve_ndiscardedsamples = 0, ve_niter_opt = 0, ve_dosr = False,
         ve_use_cholesky = False, ve_sr_diag_shift = 0, ve_sr_rescale_shift = False,
         ve_use_iterative = False, ve_Ok = [], ve_psi2 = [], ve_elocs = [], ve_grad = []\<rparr> = Inr vst'
      \<and> ve_nsamples_node vst' = 334)"
proof -
  let ?env = "\<lparr>Npar = 2, IsHolomorphic = True, comm_size = 3,
         SolverFromString = (\<lambda>s. if s = ''LLT'' then Some (0::nat) else None)\<rparr>"
  let ?st0 = "\<lparr>totalnodes = 0, sr = None :: nat SR option, nsamples = 0, nsamples_node = 0,
        ninitsamples = 0, ndiscard = 0, npar = 0, target = ''energy'', events = []\<rparr>"
  let ?pars = "\<lparr>Nsamples = Some 1000, DiscardedSamplesOnInit = None, DiscardedSamples = None,
         NiterOpt = Some 10, Method = Some ''SrExact'', DiagShift = None, RescaleShift = None,
         UseIterative = None, UseCholesky = None\<rparr>"
  let ?vst0 = "\<lparr>ve_npar = 0, ve_totalnodes = 0, ve_nsamples = 0, ve_nsamples_node = 0,
         ve_ninitsamples = 0, ve_ndiscardedsamples = 0, ve_niter_opt = 0, ve_dosr = False,
         ve_use_cholesky = False, ve_sr_diag_shift = 0, ve_sr_rescale_shift = False,
         ve_use_iterative = False, ve_Ok = [], ve_psi2 = [], ve_elocs = [], ve_grad = []\<rparr>"
  obtain st' where st': "Init ?env ?st0 1000 (- 1) 0 ''Gd'' (1 / 100) False None ''LLT'' = Inr st'"
    by (simp add: Init_def Let_def)
  obtain vst' where vst': "VariationalExact_Init 2 3 ?pars ?vst0 = Inr vst'"
    by (simp add: VariationalExact_Init_def FieldVal_def Let_def)
  have "(0::int) < 3" by simp
  from per_process_quota [OF this, of ?env ?st0 1000 "- 1" 0 "''Gd''" "1 / 100" False None "''LLT''" st'
         2 ?pars ?vst0 vst'] st' vst'
  show ?thesis
    by (simp add: VariationalMonteCarlo_new_def)
qed

lemma length_mat_vec [simp]: "length (mat_vec M x) = length M"
  by (simp add: mat_vec_def)

lemma mat_vec_nth: "i < length M \<Longrightarrow> mat_vec M x ! i = (\<Sum>j<length x. M ! i ! j * x ! j)"
  by (simp add: mat_vec_def)

lemma length_adjoint [simp]: "length (adjoint nc M) = nc"
  by (simp add: adjoint_def)

lemma adjoint_nth:
  "j < nc \<Longrightarrow> k < length M \<Longrightarrow> adjoint nc M ! j ! k = cnj (M ! k ! j)"
  by (simp add: adjoint_def)

lemma adjoint_row_length: "j < nc \<Longrightarrow> length (adjoint nc M ! j) = length M"
  by (simp add: adjoint_def)

lemma length_mul_diag [simp]: "length (mul_diag A d) = length A"
  by (simp add: mul_diag_def)

lemma mul_diag_nth:
  "i < length A \<Longrightarrow> k < length d \<Longrightarrow> mul_diag A d ! i ! k = A ! i ! k * d ! k"
  by (simp add: mul_diag_def)

lemma length_mat_mul [simp]: "length (mat_mul nc A B) = length A"
  by (simp add: mat_mul_def)

lemma mat_mul_nth:
  "i < length A \<Longrightarrow> j < nc \<Longrightarrow> mat_mul nc A B ! i ! j = (\<Sum>k<length B. A ! i ! k * B ! k ! j)"
  by (simp add: mat_mul_def)

lemma length_add_shift [simp]: "length (add_shift S s) = length S"
  by (simp add: add_shift_def)

lemma add_shift_nth:
  "i < length S \<Longrightarrow> j < length S \<Longrightarrow>
     add_shift S s ! i ! j = S ! i ! j + (if i = j then of_real s else 0)"
  by (simp add: add_shift_def)

text \<open>The matrix of the direct path, entry by entry.\<close>

lemma direct_S_nth:
  assumes "i < P" "j < P" "length psi2 = length Ok"
  shows "add_shift (mat_mul P (mul_diag (adjoint P Ok) psi2) Ok) s ! i ! j
           = (\<Sum>k<length Ok. cnj (Ok ! k ! i) * psi2 ! k * Ok ! k ! j) + (if i = j then of_real s else 0)"
  using assms by (simp add: add_shift_nth mat_mul_nth mul_diag_nth adjoint_nth)

lemma sum_delta_shift:
  fixes f :: "nat \<Rightarrow> complex"
  assumes "i < P"
  shows "(\<Sum>j<P. (if i = j then c else 0) * f j) = c * f i"
proof -
  have "(\<Sum>j<P. (if i = j then c else 0) * f j) = (\<Sum>j\<in>{..<P}. if j = i then c * f j else 0)"
    by (intro sum.cong) auto
  also have "\<dots> = c * f i"
    using assms by simp
  finally show ?thesis .
qed

lemma direct_quadratic_form:
  assumes len: "length x = P" "length psi2 = length Ok"
  shows "cdot x (mat_vec (add_shift (mat_mul P (mul_diag (adjoint P Ok) psi2) Ok) s) x)
           = (\<Sum>k<length Ok. psi2 ! k * (cnj (\<Sum>i<P. Ok ! k ! i * x ! i) * (\<Sum>j<P. Ok ! k ! j * x ! j)))
             + of_real s * (\<Sum>i<P. cnj (x ! i) * x ! i)"
proof -
  let ?N = "length Ok"
  let ?S = "add_shift (mat_mul P (mul_diag (adjoint P Ok) psi2) Ok) s"
  have lenS: "length ?S = P" by simp
  have "cdot x (mat_vec ?S x) = (\<Sum>i<P. cnj (x ! i) * (\<Sum>j<P. ?S ! i ! j * x ! j))"
    by (simp add: cdot_def len(1) mat_vec_nth)
  also have "\<dots> = (\<Sum>i<P. cnj (x ! i) *
        ((\<Sum>j<P. (\<Sum>k<?N. cnj (Ok ! k ! i) * psi2 ! k * Ok ! k ! j) * x ! j) + of_real s * x ! i))"
  proof (intro sum.cong refl)
    fix i assume "i \<in> {..<P}"
    then have i: "i < P" by simp
    have "(\<Sum>j<P. ?S ! i ! j * x ! j)
        = (\<Sum>j<P. ((\<Sum>k<?N. cnj (Ok ! k ! i) * psi2 ! k * Ok ! k ! j)
                   + (if i = j then of_real s else 0)) * x ! j)"
      by (intro sum.cong refl) (simp add: direct_S_nth [OF i _ len(2)])
    also have "\<dots> = (\<Sum>j<P. (\<Sum>k<?N. cnj (Ok ! k ! i) * psi2 ! k * Ok ! k ! j) * x ! j)
                     + (\<Sum>j<P. (if i = j then of_real s else 0) * x ! j)"
      by (simp add: distrib_right sum.distrib)
    also have "(\<Sum>j<P. (if i = j then of_real s else 0) * x ! j) = of_real s * x ! i"
      by (rule sum_delta_shift [OF i])
    finally show "cnj (x ! i) * (\<Sum>j<P. ?S ! i ! j * x ! j)
        = cnj (x ! i) * ((\<Sum>j<P. (\<Sum>k<?N. cnj (Ok ! k ! i) * psi2 ! k * Ok ! k ! j) * x ! j)
                         + of_real s * x ! i)"
      by simp
  qed
  also have "\<dots> = (\<Sum>i<P. \<Sum>j<P. \<Sum>k<?N. cnj (x ! i) * cnj (Ok ! k ! i) * psi2 ! k * Ok ! k ! j * x ! j)
                   + of_real s * (\<Sum>i<P. cnj (x ! i) * x ! i)"
    by (simp add: distrib_left sum.distrib sum_distrib_left sum_distrib_right mult_ac)
  also have "(\<Sum>i<P. \<Sum>j<P. \<Sum>k<?N. cnj (x ! i) * cnj (Ok ! k ! i) * psi2 ! k * Ok ! k ! j * x ! j)
           = (\<Sum>k<?N. \<Sum>i<P. \<Sum>j<P. cnj (x ! i) * cnj (Ok ! k ! i) * psi2 ! k * Ok ! k ! j * x ! j)"
  proof -
    have "(\<Sum>i<P. \<Sum>j<P. \<Sum>k<?N. cnj (x ! i) * cnj (Ok ! k ! i) * psi2 ! k * Ok ! k ! j * x ! j)
        = (\<Sum>i<P. \<Sum>k<?N. \<Sum>j<P. cnj (x ! i) * cnj (Ok ! k ! i) * psi2 ! k * Ok ! k ! j * x ! j)"
      by (intro sum.cong refl sum.swap)
    also have "\<dots> = (\<Sum>k<?N. \<Sum>i<P. \<Sum>j<P. cnj (x ! i) * cnj (Ok ! k ! i) * psi2 ! k * Ok ! k ! j * x ! j)"
      by (rule sum.swap)
    finally show ?thesis .
  qed
  also have "\<dots> = (\<Sum>k<?N. psi2 ! k * (cnj (\<Sum>i<P. Ok ! k ! i * x ! i) * (\<Sum>j<P. Ok ! k ! j * x ! j)))"
    by (intro sum.cong refl) (simp add: sum_product sum_distrib_left mult_ac)
  finally show ?thesis .
qed

lemma length_MatrixReplacement_apply [simp]: "length (MatrixReplacement_apply S x) = length x"
  by (simp add: MatrixReplacement_apply_def Let_def)

lemma MatrixReplacement_apply_nth:
  assumes "i < length x" "length x = mr_ncols S"
  shows "MatrixReplacement_apply S x ! i
           = of_real (mr_scale S)
               * (\<Sum>k<length (mr_matrix S). cnj (mr_matrix S ! k ! i)
                     * (\<Sum>j<length x. mr_matrix S ! k ! j * x ! j))
             + of_real (mr_shift S) * x ! i"
  using assms
  by (simp add: MatrixReplacement_apply_def Let_def mat_vec_nth adjoint_nth)

lemma iterative_quadratic_form:
  assumes len: "length x = P" "mr_ncols S = P"
  shows "cdot x (MatrixReplacement_apply S x)
           = of_real (mr_scale S)
               * (\<Sum>k<length (mr_matrix S). cnj (\<Sum>i<P. mr_matrix S ! k ! i * x ! i)
                                            * (\<Sum>j<P. mr_matrix S ! k ! j * x ! j))
             + of_real (mr_shift S) * (\<Sum>i<P. cnj (x ! i) * x ! i)"
proof -
  let ?N = "length (mr_matrix S)"
  let ?O = "mr_matrix S"
  define Y where "Y k = (\<Sum>j<P. ?O ! k ! j * x ! j)" for k
  have "cdot x (MatrixReplacement_apply S x)
      = (\<Sum>i<P. cnj (x ! i) * (of_real (mr_scale S) * (\<Sum>k<?N. cnj (?O ! k ! i) * Y k)
                               + of_real (mr_shift S) * x ! i))"
    unfolding cdot_def len(1) Y_def
    by (intro sum.cong refl) (simp add: MatrixReplacement_apply_nth len)
  also have "\<dots> = of_real (mr_scale S) * (\<Sum>i<P. \<Sum>k<?N. cnj (x ! i) * cnj (?O ! k ! i) * Y k)
                   + of_real (mr_shift S) * (\<Sum>i<P. cnj (x ! i) * x ! i)"
    by (simp add: distrib_left sum.distrib sum_distrib_left mult_ac)
  also have "(\<Sum>i<P. \<Sum>k<?N. cnj (x ! i) * cnj (?O ! k ! i) * Y k)
           = (\<Sum>k<?N. \<Sum>i<P. cnj (x ! i) * cnj (?O ! k ! i) * Y k)"
    by (rule sum.swap)
  also have "\<dots> = (\<Sum>k<?N. cnj (\<Sum>i<P. ?O ! k ! i * x ! i) * Y k)"
    by (intro sum.cong refl) (simp add: sum_distrib_left sum_distrib_right mult_ac)
  finally show ?thesis
    unfolding Y_def .
qed

lemma cnj_mult_self: "cnj z * z = of_real ((cmod z)\<^sup>2)"
proof -
  have "of_real ((cmod z)\<^sup>2) = z * cnj z"
    by (rule complex_norm_square)
  then show ?thesis
    by (simp only: mult.commute [of "cnj z" z])
qed

lemma norm_square_sum:
  "(\<Sum>i<P. cnj (x ! i) * x ! i) = complex_of_real (\<Sum>i<P. (cmod (x ! i))\<^sup>2)"
  by (simp add: cnj_mult_self)

lemma direct_quadratic_form_real:
  assumes len: "length x = P" "length psi2 = length Ok"
      and psi2: "\<forall>p\<in>set psi2. Im p = 0"
  shows "cdot x (mat_vec (add_shift (mat_mul P (mul_diag (adjoint P Ok) psi2) Ok) s) x)
           = of_real ((\<Sum>k<length Ok. Re (psi2 ! k) * (cmod (\<Sum>j<P. Ok ! k ! j * x ! j))\<^sup>2)
                      + s * (\<Sum>i<P. (cmod (x ! i))\<^sup>2))"
proof -
  have p: "psi2 ! k = of_real (Re (psi2 ! k))" if "k < length Ok" for k
    using psi2 that len(2) by (simp_all add: complex_eq_iff)
  have "(\<Sum>k<length Ok. psi2 ! k * (cnj (\<Sum>i<P. Ok ! k ! i * x ! i) * (\<Sum>j<P. Ok ! k ! j * x ! j)))
      = (\<Sum>k<length Ok. of_real (Re (psi2 ! k) * (cmod (\<Sum>j<P. Ok ! k ! j * x ! j))\<^sup>2))"
  proof (intro sum.cong refl)
    fix k assume "k \<in> {..<length Ok}"
    then have "psi2 ! k = of_real (Re (psi2 ! k))" using p by simp
    then show "psi2 ! k * (cnj (\<Sum>i<P. Ok ! k ! i * x ! i) * (\<Sum>j<P. Ok ! k ! j * x ! j))
        = of_real (Re (psi2 ! k) * (cmod (\<Sum>j<P. Ok ! k ! j * x ! j))\<^sup>2)"
      by (metis cnj_mult_self of_real_mult)
  qed
  then show ?thesis
    unfolding direct_quadratic_form [OF len] norm_square_sum
    by simp
qed

lemma iterative_quadratic_form_real:
  assumes len: "length x = P" "mr_ncols S = P"
  shows "cdot x (MatrixReplacement_apply S x)
           = of_real (mr_scale S * (\<Sum>k<length (mr_matrix S). (cmod (\<Sum>j<P. mr_matrix S ! k ! j * x ! j))\<^sup>2)
                      + mr_shift S * (\<Sum>i<P. (cmod (x ! i))\<^sup>2))"
  unfolding iterative_quadratic_form [OF len] norm_square_sum cnj_mult_self
  by simp

lemma mat_vec_scale:
  "mat_vec M (map (\<lambda>z. z / c) x) = map (\<lambda>z. z / c) (mat_vec M x)"
  by (simp add: mat_vec_def sum_divide_distrib)

lemma MatrixReplacement_apply_scale:
  assumes "length x = mr_ncols S"
  shows "MatrixReplacement_apply S (map (\<lambda>z. z / c) x) = map (\<lambda>z. z / c) (MatrixReplacement_apply S x)"
  using assms
  by (simp add: MatrixReplacement_apply_def Let_def mat_vec_scale add_divide_distrib)

lemma cdot_scale:
  assumes "length a = length b" "r \<noteq> 0"
  shows "cdot (map (\<lambda>z. z / of_real r) a) (map (\<lambda>z. z / of_real r) b) = cdot a b / of_real (r\<^sup>2)"
proof -
  show ?thesis
    using assms(1) by (simp add: cdot_def sum_divide_distrib power2_eq_square)
qed

lemma unit_norm_after_rescale:
  assumes lin: "T (map (\<lambda>z. z / of_real (sqrt rho)) x) = map (\<lambda>z. z / of_real (sqrt rho)) (T x)"
      and len: "length (T x) = length x"
      and q: "cdot x (T x) = of_real rho" and pos: "0 < rho"
  shows "cdot (map (\<lambda>z. z / of_real (sqrt rho)) x) (T (map (\<lambda>z. z / of_real (sqrt rho)) x)) = 1"
proof -
  have r: "sqrt rho \<noteq> 0" "(sqrt rho)\<^sup>2 = rho"
    using pos by simp_all
  have "cdot (map (\<lambda>z. z / of_real (sqrt rho)) x) (T (map (\<lambda>z. z / of_real (sqrt rho)) x))
          = cdot x (T x) / of_real ((sqrt rho)\<^sup>2)"
    unfolding lin using len r(1) by (intro cdot_scale) simp_all
  also have "\<dots> = 1"
    unfolding q r(2) using pos by simp
  finally show ?thesis .
qed

lemma rescale_entry:
  assumes "0 < rho"
  shows "cdiv Fin (cfin x) (dsqrt Fin (Fin rho)) = cfin (x / of_real (sqrt rho))"
proof -
  have "sqrt rho \<noteq> 0" using assms by simp
  then show ?thesis
    using assms by (simp add: cdiv_cfin)
qed

text \<open>
  \<^bold>\<open>C6\<close> (as amended).  With stochastic reconfiguration and the rescaling switched on,
  let \<open>deltaP\<close> be what the solver of the configured path returns, a vector of as many
  entries as there are parameters, and \<open>S\<close> the regularised operator of that path: the
  matrix \<open>O\<^sup>H diag(psi2) O + shift I\<close> of the direct path, with real weights \<open>psi2\<close>,
  or the matrix-free operator of the iterative path, for at least one configuration
  and one process.  When \<open>Re (deltaP\<^sup>H S deltaP)\<close> is positive, \<open>UpdateParameters\<close> stores
  in \<open>grad\<close> the solution divided by its square root, in either path, and the stored
  update has S-norm one.
\<close>

theorem rescaled_update_has_unit_S_norm:
  fixes env :: exact_env and st :: VariationalExact and pars :: cvec
  defines "b \<equiv> mat_vec (mul_diag (adjoint (ve_npar st) (ve_Ok st)) (ve_psi2 st)) (ve_elocs st)"
      and "Sd \<equiv> add_shift (mat_mul (ve_npar st)
                  (mul_diag (adjoint (ve_npar st) (ve_Ok st)) (ve_psi2 st)) (ve_Ok st))
                  (ve_sr_diag_shift st)"
      and "Si \<equiv> \<lparr>mr_matrix = ve_Ok st, mr_ncols = ve_npar st, mr_shift = ve_sr_diag_shift st,
                 mr_scale = 1 / (real (length (ve_Ok st)) * real_of_int (ve_totalnodes st))\<rparr>"
  defines "deltaP \<equiv> (if ve_use_iterative st then solve_cg env (MatrixReplacement_apply Si) b
                      else if ve_use_cholesky st = False then solve_qr env Sd b
                      else solve_llt env Sd b)"
      and "S \<equiv> (if ve_use_iterative st then MatrixReplacement_apply Si else mat_vec Sd)"
  assumes flags: "ve_dosr st" "ve_sr_rescale_shift st"
      and dims: "length (ve_psi2 st) = length (ve_Ok st)" "length (ve_grad st) = ve_npar st"
      and psi2: "\<forall>p\<in>set (ve_psi2 st). Im p = 0"
      and nodes: "0 < ve_totalnodes st" "ve_Ok st \<noteq> []"
      and sol: "length deltaP = ve_npar st"
      and pos: "0 < Re (cdot deltaP (S deltaP))"
  shows "\<exists>st' pars' g. UpdateParameters_exact env st pars = Inr (st', pars')
           \<and> g = map (\<lambda>x. x / of_real (sqrt (Re (cdot deltaP (S deltaP))))) deltaP
           \<and> ve_grad st' = map cfin g
           \<and> cdot g (S g) = 1"
proof -
  let ?P = "ve_npar st"
  define rho where "rho = Re (cdot deltaP (S deltaP))"
  have rho: "0 < rho" using pos by (simp add: rho_def)
  have "\<exists>r. cdot deltaP (S deltaP) = of_real r"
  proof (cases "ve_use_iterative st")
    case True
    have "mr_ncols Si = ?P"
      by (simp add: Si_def)
    note e = iterative_quadratic_form_real [OF sol this]
    have "S = MatrixReplacement_apply Si"
      using True by (simp add: S_def)
    with e show ?thesis
      by (simp only:) blast
  next
    case False
    note d = direct_quadratic_form_real [OF sol dims(1) psi2, where s = "ve_sr_diag_shift st"]
    have "S = mat_vec Sd"
      using False by (simp add: S_def)
    with d show ?thesis
      by (simp only: Sd_def) blast
  qed
  then have q: "cdot deltaP (S deltaP) = of_real rho"
    unfolding rho_def by auto
  have lin: "S (map (\<lambda>z. z / of_real (sqrt rho)) deltaP) = map (\<lambda>z. z / of_real (sqrt rho)) (S deltaP)"
    using sol by (simp add: S_def mat_vec_scale MatrixReplacement_apply_scale Si_def)
  have len: "length (S deltaP) = length deltaP"
    using sol by (simp add: S_def Sd_def)
  note unit = unit_norm_after_rescale [OF lin len q rho]
  have entries: "map (\<lambda>x. cdiv Fin (cfin x) (dsqrt Fin (Fin rho))) deltaP
                   = map cfin (map (\<lambda>x. x / of_real (sqrt rho)) deltaP)"
    by (simp only: rescale_entry [OF rho] map_map comp_def)
  have code: "UpdateParameters_exact env st pars
          = Inr (st\<lparr>ve_grad := map cfin (map (\<lambda>x. x / of_real (sqrt rho)) deltaP)\<rparr>,
                 opt_Update env (map cfin (map (\<lambda>x. x / of_real (sqrt rho)) deltaP)) pars)"
  proof (cases "ve_use_iterative st")
    case True
    then have R: "Re (cdot deltaP (MatrixReplacement_apply Si deltaP)) = rho"
      by (simp add: S_def rho_def)
    have D: "solve_cg env (MatrixReplacement_apply Si) b = deltaP"
      using True by (simp add: deltaP_def)
    show ?thesis
      unfolding UpdateParameters_exact_def Let_def b_def [symmetric] Si_def [symmetric] D R entries
      using True flags by simp
  next
    case False
    then have R: "Re (cdot deltaP (mat_vec Sd deltaP)) = rho"
      by (simp add: S_def rho_def)
    have D: "(if ve_use_cholesky st = False then solve_qr env Sd b else solve_llt env Sd b) = deltaP"
      using False by (simp add: deltaP_def)
    show ?thesis
      unfolding UpdateParameters_exact_def Let_def b_def [symmetric] Sd_def [symmetric] D R entries
      using False flags sol dims(2) by simp
  qed
  show ?thesis
    unfolding code rho_def [symmetric] using unit by simp
qed

lemma example_direct:
  "mul_diag (adjoint (Suc 0) [[3], [- 1]]) [1 / 4, 3 / 4] = [[3 / 4, - (3 / 4)]]"
  "mat_vec [[3 / 4, - (3 / 4)]] [3, - 1] = [3]"
  "mat_vec [[3 / 4, - (3 / 4)]] [0, 0] = [0]"
  "add_shift (mat_mul (Suc 0) [[3 / 4, - (3 / 4)]] [[3], [- 1]]) 1 = [[4]]"
  "mat_vec [[4]] [x] = [4 * x]"
  by (simp_all add: mul_diag_def adjoint_def mat_vec_def mat_mul_def add_shift_def upt_conv_Cons)

lemma example_iterative:
  "MatrixReplacement_apply \<lparr>mr_matrix = [[3], [- 1]], mr_ncols = Suc 0, mr_shift = 1, mr_scale = 1 / 2\<rparr> [x]
     = [6 * x]"
  by (simp add: MatrixReplacement_apply_def adjoint_def mat_vec_def upt_conv_Cons Let_def)

lemma example_cdot: "cdot [x] [y] = cnj x * y"
  by (simp add: cdot_def)

lemma example_sqrt: "sqrt (9 / 4) = 3 / 2"
  by (rule real_sqrt_unique) (simp_all add: power_divide)

theorem rescaled_update_has_unit_S_norm_witness:
  "(\<exists>st' pars'. UpdateParameters_exact
        \<lparr>solve_qr = (\<lambda>S b. [b ! 0 / S ! 0 ! 0]), solve_llt = (\<lambda>S b. [b ! 0 / S ! 0 ! 0]),
         solve_cg = (\<lambda>A b. [b ! 0 / A [1] ! 0]),
         opt_Update = (\<lambda>g p. map2 (csub Fin) (map cfin p) g)\<rparr>
        \<lparr>ve_npar = 1, ve_totalnodes = 1, ve_nsamples = 0, ve_nsamples_node = 0,
         ve_ninitsamples = 0, ve_ndiscardedsamples = 0, ve_niter_opt = 1, ve_dosr = True,
         ve_use_cholesky = True, ve_sr_diag_shift = 1, ve_sr_rescale_shift = True,
         ve_use_iterative = False, ve_Ok = [[3], [- 1]], ve_psi2 = [1 / 4, 3 / 4],
         ve_elocs = [3, - 1], ve_grad = [(Fin 0, Fin 0)]\<rparr> [0] = Inr (st', pars')
      \<and> ve_grad st' = map cfin [1 / 2])
   \<and> cdot [1 / 2] (mat_vec [[4]] [1 / 2]) = 1
   \<and> (\<exists>st' pars'. UpdateParameters_exact
        \<lparr>solve_qr = (\<lambda>S b. [b ! 0 / S ! 0 ! 0]), solve_llt = (\<lambda>S b. [b ! 0 / S ! 0 ! 0]),
         solve_cg = (\<lambda>A b. [b ! 0 / A [1] ! 0]),
         opt_Update = (\<lambda>g p. map2 (csub Fin) (map cfin p) g)\<rparr>
        \<lparr>ve_npar = 1, ve_totalnodes = 1, ve_nsamples = 0, ve_nsamples_node = 0,
         ve_ninitsamples = 0, ve_ndiscardedsamples = 0, ve_niter_opt = 1, ve_dosr = True,
         ve_use_cholesky = True, ve_sr_diag_shift = 1, ve_sr_rescale_shift = True,
         ve_use_iterative = True, ve_Ok = [[3], [- 1]], ve_psi2 = [1 / 4, 3 / 4],
         ve_elocs = [3, - 1], ve_grad = [(Fin 0, Fin 0)]\<rparr> [0] = Inr (st', pars')
      \<and> ve_grad st' = map cfin [1 / 2 / complex_of_real (sqrt (3 / 2))])
   \<and> cdot [1 / 2 / complex_of_real (sqrt (3 / 2))]
        (MatrixReplacement_apply
           \<lparr>mr_matrix = [[3], [- 1]], mr_ncols = 1, mr_shift = 1, mr_scale = 1 / 2\<rparr>
           [1 / 2 / complex_of_real (sqrt (3 / 2))]) = 1"
  using rescaled_update_has_unit_S_norm
    [of "\<lparr>ve_npar = 1, ve_totalnodes = 1, ve_nsamples = 0, ve_nsamples_node = 0,
         ve_ninitsamples = 0, ve_ndiscardedsamples = 0, ve_niter_opt = 1, ve_dosr = True,
         ve_use_cholesky = True, ve_sr_diag_shift = 1, ve_sr_rescale_shift = True,
         ve_use_iterative = False, ve_Ok = [[3], [- 1]], ve_psi2 = [1 / 4, 3 / 4],
         ve_elocs = [3, - 1], ve_grad = [(Fin 0, Fin 0)]\<rparr>"
        "\<lparr>solve_qr = (\<lambda>S b. [b ! 0 / S ! 0 ! 0]), solve_llt = (\<lambda>S b. [b ! 0 / S ! 0 ! 0]),
         solve_cg = (\<lambda>A b. [b ! 0 / A [1] ! 0]),
         opt_Update = (\<lambda>g p. map2 (csub Fin) (map cfin p) g)\<rparr>" "[0]"]
    rescaled_update_has_unit_S_norm
    [of "\<lparr>ve_npar = 1, ve_totalnodes = 1, ve_nsamples = 0, ve_nsamples_node = 0,
         ve_ninitsamples = 0, ve_ndiscardedsamples = 0, ve_niter_opt = 1, ve_dosr = True,
         ve_use_cholesky = True, ve_sr_diag_shift = 1, ve_sr_rescale_shift = True,
         ve_use_iterative = True, ve_Ok = [[3], [- 1]], ve_psi2 = [1 / 4, 3 / 4],
         ve_elocs = [3, - 1], ve_grad = [(Fin 0, Fin 0)]\<rparr>"
        "\<lparr>solve_qr = (\<lambda>S b. [b ! 0 / S ! 0 ! 0]), solve_llt = (\<lambda>S b. [b ! 0 / S ! 0 ! 0]),
         solve_cg = (\<lambda>A b. [b ! 0 / A [1] ! 0]),
         opt_Update = (\<lambda>g p. map2 (csub Fin) (map cfin p) g)\<rparr>" "[0]"]
  by (simp add: example_direct example_iterative example_cdot example_sqrt) blast

text \<open>
  The statement of the specification fails in two ways.

  \<^item> A zero solution cannot be rescaled to norm one.  When the local energies are
    constant, here with two configurations and centred local energies \<open>0\<close> and \<open>0\<close>, the
    right-hand side and the solution are zero, \<open>deltaP\<^sup>H S deltaP\<close> is zero, and the
    division \<open>0 / sqrt 0\<close> stores not-a-number in \<open>grad\<close>, which the optimizer receives.

  \<^item> The two paths do not rescale with one operator.  On the input of the witness
    the update of the iterative path has norm one for the operator \<open>x \<mapsto> 6 x\<close> of that
    path, and norm \<open>2/3\<close> for the matrix \<open>S = 4\<close> of the direct path.
\<close>

theorem rescaled_update_counterexample:
  "UpdateParameters_exact
        \<lparr>solve_qr = (\<lambda>S b. [b ! 0 / S ! 0 ! 0]), solve_llt = (\<lambda>S b. [b ! 0 / S ! 0 ! 0]),
         solve_cg = (\<lambda>A b. [b ! 0 / A [1] ! 0]),
         opt_Update = (\<lambda>g p. map2 (csub Fin) (map cfin p) g)\<rparr>
        \<lparr>ve_npar = 1, ve_totalnodes = 1, ve_nsamples = 0, ve_nsamples_node = 0,
         ve_ninitsamples = 0, ve_ndiscardedsamples = 0, ve_niter_opt = 1, ve_dosr = True,
         ve_use_cholesky = True, ve_sr_diag_shift = 1, ve_sr_rescale_shift = True,
         ve_use_iterative = False, ve_Ok = [[3], [- 1]], ve_psi2 = [1 / 4, 3 / 4],
         ve_elocs = [0, 0], ve_grad = [(Fin 0, Fin 0)]\<rparr> [0]
       = Inr (\<lparr>ve_npar = 1, ve_totalnodes = 1, ve_nsamples = 0, ve_nsamples_node = 0,
         ve_ninitsamples = 0, ve_ndiscardedsamples = 0, ve_niter_opt = 1, ve_dosr = True,
         ve_use_cholesky = True, ve_sr_diag_shift = 1, ve_sr_rescale_shift = True,
         ve_use_iterative = False, ve_Ok = [[3], [- 1]], ve_psi2 = [1 / 4, 3 / 4],
         ve_elocs = [0, 0], ve_grad = [(NaN, NaN)]\<rparr>, [(NaN, NaN)])
   \<and> add_shift (mat_mul 1 (mul_diag (adjoint 1 [[3], [- 1]]) [1 / 4, 3 / 4]) [[3], [- 1]]) 1 = [[4]]
   \<and> UpdateParameters_exact
        \<lparr>solve_qr = (\<lambda>S b. [b ! 0 / S ! 0 ! 0]), solve_llt = (\<lambda>S b. [b ! 0 / S ! 0 ! 0]),
         solve_cg = (\<lambda>A b. [b ! 0 / A [1] ! 0]),
         opt_Update = (\<lambda>g p. map2 (csub Fin) (map cfin p) g)\<rparr>
        \<lparr>ve_npar = 1, ve_totalnodes = 1, ve_nsamples = 0, ve_nsamples_node = 0,
         ve_ninitsamples = 0, ve_ndiscardedsamples = 0, ve_niter_opt = 1, ve_dosr = True,
         ve_use_cholesky = True, ve_sr_diag_shift = 1, ve_sr_rescale_shift = True,
         ve_use_iterative = True, ve_Ok = [[3], [- 1]], ve_psi2 = [1 / 4, 3 / 4],
         ve_elocs = [3, - 1], ve_grad = [(Fin 0, Fin 0)]\<rparr> [0]
       = Inr (\<lparr>ve_npar = 1, ve_totalnodes = 1, ve_nsamples = 0, ve_nsamples_node = 0,
         ve_ninitsamples = 0, ve_ndiscardedsamples = 0, ve_niter_opt = 1, ve_dosr = True,
         ve_use_cholesky = True, ve_sr_diag_shift = 1, ve_sr_rescale_shift = True,
         ve_use_iterative = True, ve_Ok = [[3], [- 1]], ve_psi2 = [1 / 4, 3 / 4],
         ve_elocs = [3, - 1], ve_grad = [cfin (1 / 2 / complex_of_real (sqrt (3 / 2)))]\<rparr>,
              [csub Fin (cfin 0) (cfin (1 / 2 / complex_of_real (sqrt (3 / 2))))])
   \<and> cdot [1 / 2 / complex_of_real (sqrt (3 / 2))]
         (mat_vec [[4]] [1 / 2 / complex_of_real (sqrt (3 / 2))]) = 2 / 3"
proof -
  have s: "complex_of_real (sqrt (3 / 2)) * complex_of_real (sqrt (3 / 2)) = 3 / 2"
    by (simp flip: of_real_mult)
  have n: "cnj (1 / 2 / complex_of_real (sqrt (3 / 2))) * (4 * (1 / 2 / complex_of_real (sqrt (3 / 2))))
             = 2 / 3"
    by (simp add: s)
  show ?thesis
    by (simp add: UpdateParameters_exact_def example_direct example_iterative example_cdot
          cdiv_def csub_def dsub_def cfin_def n s)
qed

text \<open>
  \<^bold>\<open>C5\<close> (not met by the code).  The two solver paths should solve the same
  regularised system.  Evaluated for one parameter, two configurations with
  probabilities \<open>1/4\<close> and \<open>3/4\<close>, centred log-derivatives \<open>3\<close> and \<open>-1\<close>, centred local
  energies \<open>3\<close> and \<open>-1\<close>, shift \<open>1\<close> and one process: the right-hand side is \<open>3\<close> in both
  paths; the direct path solves with the matrix \<open>O\<^sup>H diag(psi2) O + 1 = 4\<close>, the iterative
  path with the operator \<open>x \<mapsto> (O\<^sup>H O / 2 + 1) x = 6 x\<close>, which does not see the
  probabilities.  With solvers that are exact on this one-dimensional system the
  stored updates are \<open>3/4\<close> and \<open>1/2\<close>.
\<close>

theorem direct_and_iterative_update_differ:
  "mat_vec (mul_diag (adjoint 1 [[3], [- 1]]) [1 / 4, 3 / 4]) [3, - 1] = [3]
   \<and> add_shift (mat_mul 1 (mul_diag (adjoint 1 [[3], [- 1]]) [1 / 4, 3 / 4]) [[3], [- 1]]) 1 = [[4]]
   \<and> MatrixReplacement_apply
         \<lparr>mr_matrix = [[3], [- 1]], mr_ncols = 1, mr_shift = 1, mr_scale = 1 / (2 * 1)\<rparr> [1] = [6]
   \<and> UpdateParameters_exact
        \<lparr>solve_qr = (\<lambda>S b. [b ! 0 / S ! 0 ! 0]), solve_llt = (\<lambda>S b. [b ! 0 / S ! 0 ! 0]),
         solve_cg = (\<lambda>A b. [b ! 0 / A [1] ! 0]),
         opt_Update = (\<lambda>g p. map2 (csub Fin) (map cfin p) g)\<rparr>
        \<lparr>ve_npar = 1, ve_totalnodes = 1, ve_nsamples = 0, ve_nsamples_node = 0,
         ve_ninitsamples = 0, ve_ndiscardedsamples = 0, ve_niter_opt = 1, ve_dosr = True,
         ve_use_cholesky = True, ve_sr_diag_shift = 1, ve_sr_rescale_shift = False,
         ve_use_iterative = False, ve_Ok = [[3], [- 1]], ve_psi2 = [1 / 4, 3 / 4],
         ve_elocs = [3, - 1], ve_grad = [(Fin 0, Fin 0)]\<rparr> [0]
       = Inr (\<lparr>ve_npar = 1, ve_totalnodes = 1, ve_nsamples = 0, ve_nsamples_node = 0,
         ve_ninitsamples = 0, ve_ndiscardedsamples = 0, ve_niter_opt = 1, ve_dosr = True,
         ve_use_cholesky = True, ve_sr_diag_shift = 1, ve_sr_rescale_shift = False,
         ve_use_iterative = False, ve_Ok = [[3], [- 1]], ve_psi2 = [1 / 4, 3 / 4],
         ve_elocs = [3, - 1], ve_grad = [cfin (3 / 4)]\<rparr>, [cfin (- (3 / 4))])
   \<and> UpdateParameters_exact
        \<lparr>solve_qr = (\<lambda>S b. [b ! 0 / S ! 0 ! 0]), solve_llt = (\<lambda>S b. [b ! 0 / S ! 0 ! 0]),
         solve_cg = (\<lambda>A b. [b ! 0 / A [1] ! 0]),
         opt_Update = (\<lambda>g p. map2 (csub Fin) (map cfin p) g)\<rparr>
        \<lparr>ve_npar = 1, ve_totalnodes = 1, ve_nsamples = 0, ve_nsamples_node = 0,
         ve_ninitsamples = 0, ve_ndiscardedsamples = 0, ve_niter_opt = 1, ve_dosr = True,
         ve_use_cholesky = True, ve_sr_diag_shift = 1, ve_sr_rescale_shift = False,
         ve_use_iterative = True, ve_Ok = [[3], [- 1]], ve_psi2 = [1 / 4, 3 / 4],
         ve_elocs = [3, - 1], ve_grad = [(Fin 0, Fin 0)]\<rparr> [0]
       = Inr (\<lparr>ve_npar = 1, ve_totalnodes = 1, ve_nsamples = 0, ve_nsamples_node = 0,
         ve_ninitsamples = 0, ve_ndiscardedsamples = 0, ve_niter_opt = 1, ve_dosr = True,
         ve_use_cholesky = True, ve_sr_diag_shift = 1, ve_sr_rescale_shift = False,
         ve_use_iterative = True, ve_Ok = [[3], [- 1]], ve_psi2 = [1 / 4, 3 / 4],
         ve_elocs = [3, - 1], ve_grad = [cfin (1 / 2)]\<rparr>, [cfin (- (1 / 2))])"
  by (simp add: UpdateParameters_exact_def example_direct example_iterative csub_def dsub_def cfin_def)

end
